theory Spec2Isabelle
  imports Main "HOL-Library.AList"
begin

section \<open>JavaScript values\<close>

text \<open>
  The cache of \<^verbatim>\<open>lib/node_cache.js\<close> stores arbitrary JavaScript values under keys
  that are strings or numbers. Numbers are modelled as the integers plus \<open>NaN\<close>
  (the statistics counters only ever hold such values); fractions, infinities and
  integers beyond the exact range of a double are outside the model. Strings are lists
  of code units. An object is the list of its own enumerable properties, each name
  occurring once. Values are immutable trees, so that the deep copy of \<^verbatim>\<open>clone\<close> is
  the identity on them.
\<close>

datatype jsnum = Intg int | NaN

datatype jsval =
    Undefined
  | Null
  | Bool bool
  | Number jsnum
  | String string
  | Array "jsval list"
  | Object "(string \<times> jsval) list"

fun typeof :: "jsval \<Rightarrow> string" where
  "typeof Undefined = ''undefined''"
| "typeof Null = ''object''"
| "typeof (Bool b) = ''boolean''"
| "typeof (Number n) = ''number''"
| "typeof (String s) = ''string''"
| "typeof (Array xs) = ''object''"
| "typeof (Object kvs) = ''object''"

text \<open>\<^verbatim>\<open>!x\<close> is true for \<open>undefined\<close>, \<open>null\<close>, \<open>false\<close>, \<open>0\<close>, \<open>NaN\<close> and the empty string.\<close>

fun truthy :: "jsval \<Rightarrow> bool" where
  "truthy Undefined = False"
| "truthy Null = False"
| "truthy (Bool b) = b"
| "truthy (Number (Intg n)) = (n \<noteq> 0)"
| "truthy (Number NaN) = False"
| "truthy (String s) = (s \<noteq> [])"
| "truthy (Array xs) = True"
| "truthy (Object kvs) = True"

text \<open>\<^verbatim>\<open>x != null\<close> is false exactly for \<open>null\<close> and \<open>undefined\<close>.\<close>

fun not_nullish :: "jsval \<Rightarrow> bool" where
  "not_nullish Undefined = False"
| "not_nullish Null = False"
| "not_nullish x = True"

text \<open>Arithmetic on numbers: \<open>NaN\<close> absorbs.\<close>

fun num_add :: "jsnum \<Rightarrow> jsnum \<Rightarrow> jsnum" where
  "num_add (Intg a) (Intg b) = Intg (a + b)"
| "num_add a b = NaN"

fun num_sub :: "jsnum \<Rightarrow> jsnum \<Rightarrow> jsnum" where
  "num_sub (Intg a) (Intg b) = Intg (a - b)"
| "num_sub a b = NaN"

text \<open>
  \<^verbatim>\<open>n += x\<close> and \<^verbatim>\<open>n -= x\<close> for a number \<open>n\<close> and an operand that is a number or
  \<open>undefined\<close> (the only operands the cache produces): \<open>undefined\<close> converts to \<open>NaN\<close>.
\<close>

fun plus_assign :: "jsnum \<Rightarrow> jsval \<Rightarrow> jsnum" where
  "plus_assign n (Number m) = num_add n m"
| "plus_assign n x = NaN"

fun minus_assign :: "jsnum \<Rightarrow> jsval \<Rightarrow> jsnum" where
  "minus_assign n (Number m) = num_sub n m"
| "minus_assign n x = NaN"

subsection \<open>Decimal representation and property names\<close>

fun digits :: "nat \<Rightarrow> string" where
  "digits n = (if n < 10 then [''0123456789'' ! n]
               else digits (n div 10) @ [''0123456789'' ! (n mod 10)])"

declare digits.simps [simp del]

definition show_int :: "int \<Rightarrow> string" where
  "show_int i = (if i < 0 then ''-'' @ digits (nat (- i)) else digits (nat i))"

text \<open>
  \<^verbatim>\<open>this.data[ key ]\<close> addresses the property whose name is the string form of the
  key: \<open>data[1]\<close> and \<open>data["1"]\<close> are the same slot. Only strings and numbers reach
  the map (other keys are rejected before).
\<close>

fun ToPropertyKey :: "jsval \<Rightarrow> string" where
  "ToPropertyKey (String s) = s"
| "ToPropertyKey (Number (Intg n)) = show_int n"
| "ToPropertyKey (Number NaN) = ''NaN''"
| "ToPropertyKey Undefined = ''undefined''"
| "ToPropertyKey Null = ''null''"
| "ToPropertyKey (Bool b) = (if b then ''true'' else ''false'')"
| "ToPropertyKey x = ''[object Object]''"

subsection \<open>JSON.stringify\<close>

text \<open>
  The serialisation of the host, on the values of the model. It yields no string
  (\<open>undefined\<close>, here \<open>None\<close>) for \<open>undefined\<close>; inside an array \<open>undefined\<close> prints as
  \<open>null\<close>, inside an object the property is left out.
\<close>

definition hexdigit :: "nat \<Rightarrow> char" where
  "hexdigit n = ''0123456789abcdef'' ! n"

definition quote_char :: "char \<Rightarrow> string" where
  "quote_char c =
     (if c = CHR 0x22 then [CHR 0x5C, CHR 0x22]
      else if c = CHR 0x5C then [CHR 0x5C, CHR 0x5C]
      else if c = CHR 0x08 then [CHR 0x5C, CHR ''b'']
      else if c = CHR 0x0C then [CHR 0x5C, CHR ''f'']
      else if c = CHR 0x0A then [CHR 0x5C, CHR ''n'']
      else if c = CHR 0x0D then [CHR 0x5C, CHR ''r'']
      else if c = CHR 0x09 then [CHR 0x5C, CHR ''t'']
      else if (of_char c :: nat) < 32
        then [CHR 0x5C, CHR ''u'', CHR ''0'', CHR ''0'',
              hexdigit ((of_char c :: nat) div 16), hexdigit ((of_char c :: nat) mod 16)]
      else [c])"

definition JSON_quote :: "string \<Rightarrow> string" where
  "JSON_quote s = [CHR 0x22] @ concat (map quote_char s) @ [CHR 0x22]"

fun join :: "string list \<Rightarrow> string" where
  "join [] = []"
| "join [x] = x"
| "join (x # y # ys) = x @ '','' @ join (y # ys)"

fun JSON_stringify :: "jsval \<Rightarrow> string option"
  and JSON_elements :: "jsval list \<Rightarrow> string list"
  and JSON_members :: "(string \<times> jsval) list \<Rightarrow> string list" where
  "JSON_stringify Undefined = None"
| "JSON_stringify Null = Some ''null''"
| "JSON_stringify (Bool b) = Some (if b then ''true'' else ''false'')"
| "JSON_stringify (Number (Intg n)) = Some (show_int n)"
| "JSON_stringify (Number NaN) = Some ''null''"
| "JSON_stringify (String s) = Some (JSON_quote s)"
| "JSON_stringify (Array xs) = Some (''['' @ join (JSON_elements xs) @ '']'')"
| "JSON_stringify (Object kvs) = Some (''{'' @ join (JSON_members kvs) @ ''}'')"
| "JSON_elements [] = []"
| "JSON_elements (x # xs) =
     (case JSON_stringify x of None \<Rightarrow> ''null'' | Some s \<Rightarrow> s) # JSON_elements xs"
| "JSON_members [] = []"
| "JSON_members ((k, x) # kvs) =
     (case JSON_stringify x of
        None \<Rightarrow> JSON_members kvs
      | Some s \<Rightarrow> (JSON_quote k @ '':'' @ s) # JSON_members kvs)"


section \<open>The cache engine\<close>

subsection \<open>Options, entries, statistics, errors, events\<close>

record Options =
  forceString :: bool
  objectValueSize :: int
  arrayValueSize :: int
  stdTTL :: int
  checkperiod :: int
  useClones :: bool
  errorOnMissing :: bool

definition default_options :: Options where
  "default_options =
     \<lparr>forceString = False, objectValueSize = 80, arrayValueSize = 40, stdTTL = 0,
      checkperiod = 600, useClones = True, errorOnMissing = False\<rparr>"

text \<open>A wrapped value \<^verbatim>\<open>{ t: livetime, v: value }\<close>.\<close>

record entry =
  t :: int
  v :: jsval

record Stats =
  hits :: jsnum
  misses :: jsnum
  keys :: jsnum
  ksize :: jsnum
  vsize :: jsnum

definition zero_stats :: Stats where
  "zero_stats = \<lparr>hits = Intg 0, misses = Intg 0, keys = Intg 0, ksize = Intg 0, vsize = Intg 0\<rparr>"

text \<open>
  The errors of \<^verbatim>\<open>_ERRORS\<close> with the data they carry, and the \<open>TypeError\<close> of the
  host for reading a property of \<open>undefined\<close>. \<open>OutsideModel\<close> is no error of the
  program: it marks the one step the model does not follow (see \<open>assign\<close> below).
\<close>

datatype error = ENOTFOUND jsval | EKEYTYPE string | EKEYSTYPE | TypeError | OutsideModel

datatype event = EvSet jsval jsval | EvDel jsval jsval | EvExpired jsval jsval | EvFlush

text \<open>
  The instance. \<open>data\<close> holds the own properties of \<^verbatim>\<open>this.data\<close> in insertion order,
  addressed by property name; the prototype of \<^verbatim>\<open>this.data\<close> is that of a plain
  object (see \<open>lookup\<close> below). \<^verbatim>\<open>this.stats\<close> is a reference to an object: \<open>stats\<close> is its
  address and \<open>heap\<close> the store of statistics objects, \<open>next_ref\<close> the next free
  address. \<open>emitted\<close> is the sequence of events emitted so far. Calls are made without
  a callback; the result of a call is the new instance and either the thrown error
  (\<open>Inl\<close>) or the returned value (\<open>Inr\<close>). \<^verbatim>\<open>Date.now()\<close> is the argument \<open>now\<close>.
\<close>

type_synonym ref = nat

record NodeCache =
  data :: "(string \<times> entry) list"
  options :: Options
  stats :: ref
  heap :: "ref \<Rightarrow> Stats"
  next_ref :: ref
  emitted :: "event list"

definition new_NodeCache :: "Options \<Rightarrow> NodeCache" where
  "new_NodeCache opts =
     \<lparr>data = [], options = opts, stats = 0, heap = (\<lambda>r. zero_stats), next_ref = 1,
      emitted = []\<rparr>"

definition the_stats :: "NodeCache \<Rightarrow> Stats" where
  "the_stats s = heap s (stats s)"

definition upd_stats :: "(Stats \<Rightarrow> Stats) \<Rightarrow> NodeCache \<Rightarrow> NodeCache" where
  "upd_stats f s = s\<lparr>heap := (heap s)(stats s := f (heap s (stats s)))\<rparr>"

definition emit :: "event \<Rightarrow> NodeCache \<Rightarrow> NodeCache" where
  "emit ev s = s\<lparr>emitted := emitted s @ [ev]\<rparr>"

subsection \<open>Internal methods\<close>

definition validKeyTypes :: "string list" where
  "validKeyTypes = [''string'', ''number'']"

definition isInvalidKey :: "jsval \<Rightarrow> error option" where
  "isInvalidKey key =
     (if typeof key \<notin> set validKeyTypes then Some (EKEYTYPE (typeof key)) else None)"

definition clone :: "jsval \<Rightarrow> jsval" where
  "clone x = x"

definition wrap :: "int \<Rightarrow> Options \<Rightarrow> jsval \<Rightarrow> jsnum option \<Rightarrow> bool \<Rightarrow> entry" where
  "wrap now opts val ttl asClone0 =
     (let asClone = (if \<not> useClones opts then False else asClone0);
          livetime =
            (if ttl = Some (Intg 0) then 0
             else case ttl of
               Some (Intg n) \<Rightarrow> now + n * 1000
             | _ \<Rightarrow> (if stdTTL opts = 0 then stdTTL opts else now + stdTTL opts * 1000))
      in \<lparr>t = livetime, v = (if asClone then clone val else val)\<rparr>)"

definition unwrap :: "Options \<Rightarrow> entry \<Rightarrow> bool \<Rightarrow> jsval" where
  "unwrap opts dat asClone0 =
     (let asClone = (if \<not> useClones opts then False else asClone0)
      in if not_nullish (v dat) then (if asClone then clone (v dat) else v dat) else Null)"

text \<open>\<^verbatim>\<open>key.length\<close>: a string has a length, a number has none.\<close>

fun getKeyLength :: "jsval \<Rightarrow> jsval" where
  "getKeyLength (String s) = Number (Intg (int (length s)))"
| "getKeyLength (Array xs) = Number (Intg (int (length xs)))"
| "getKeyLength (Object kvs) = (case map_of kvs ''length'' of Some x \<Rightarrow> x | None \<Rightarrow> Undefined)"
| "getKeyLength x = Undefined"

fun isString :: "jsval \<Rightarrow> bool" where
  "isString (String s) = True"
| "isString x = False"

fun isArray :: "jsval \<Rightarrow> bool" where
  "isArray (Array xs) = True"
| "isArray x = False"

fun isNumber :: "jsval \<Rightarrow> bool" where
  "isNumber (Number n) = True"
| "isNumber x = False"

fun isObject :: "jsval \<Rightarrow> bool" where
  "isObject (Array xs) = True"
| "isObject (Object kvs) = True"
| "isObject x = False"

text \<open>
  The \<^verbatim>\<open>size\<close> of lodash: the length of an array-like value (an array, a string, an
  object whose \<open>length\<close> is an integer from 0 to \<open>2^53 - 1\<close>), otherwise the number
  of own enumerable properties.
\<close>

fun lodash_size :: "jsval \<Rightarrow> int" where
  "lodash_size (String s) = int (length s)"
| "lodash_size (Array xs) = int (length xs)"
| "lodash_size (Object kvs) =
     (case map_of kvs ''length'' of
        Some (Number (Intg n)) \<Rightarrow>
          (if 0 \<le> n \<and> n \<le> 9007199254740991 then n else int (length kvs))
      | _ \<Rightarrow> int (length kvs))"
| "lodash_size x = 0"

text \<open>\<^verbatim>\<open>value.length\<close> where the value is known to be a string or an array.\<close>

fun length_of :: "jsval \<Rightarrow> int" where
  "length_of (String s) = int (length s)"
| "length_of (Array xs) = int (length xs)"
| "length_of x = 0"

definition getValLength :: "Options \<Rightarrow> jsval \<Rightarrow> error + jsnum" where
  "getValLength opts val =
     (if isString val then Inr (Intg (length_of val))
      else if forceString opts then
        (case JSON_stringify val of
           None \<Rightarrow> Inl TypeError
         | Some str \<Rightarrow> Inr (Intg (int (length str))))
      else if isArray val then Inr (Intg (arrayValueSize opts * length_of val))
      else if isNumber val then Inr (Intg 8)
      else if isObject val then Inr (Intg (objectValueSize opts * lodash_size val))
      else Inr (Intg 0))"

subsection \<open>Reading and writing the map\<close>

text \<open>
  \<^verbatim>\<open>this.data\<close> is a plain object \<^verbatim>\<open>{}\<close>. A read \<^verbatim>\<open>this.data[ key ]\<close> finds an own
  property first (a wrapped value), and otherwise what every plain object inherits from
  \<^verbatim>\<open>Object.prototype\<close>: under eleven names a function, under \<^verbatim>\<open>__proto__\<close> the
  prototype object itself. All twelve are objects without a property \<open>t\<close> or \<open>v\<close>; the
  code reads nothing else of them, so they are one value \<open>Builtin\<close>. Any other name
  reads as \<open>undefined\<close>.
\<close>

definition Object_prototype_names :: "string list" where
  "Object_prototype_names =
     [''constructor'', ''__defineGetter__'', ''__defineSetter__'', ''hasOwnProperty'',
      ''__lookupGetter__'', ''__lookupSetter__'', ''isPrototypeOf'',
      ''propertyIsEnumerable'', ''toString'', ''valueOf'', ''__proto__'',
      ''toLocaleString'']"

datatype slot = Wrapped entry | Builtin | Missing

definition lookup :: "NodeCache \<Rightarrow> string \<Rightarrow> slot" where
  "lookup s name =
     (case map_of (data s) name of
        Some dat \<Rightarrow> Wrapped dat
      | None \<Rightarrow> (if name \<in> set Object_prototype_names then Builtin else Missing))"

text \<open>
  \<^verbatim>\<open>x != null\<close> and the truth value of \<open>x\<close>, for what a read yields: both hold of
  every object and fail for \<open>undefined\<close>.
\<close>

fun present :: "slot \<Rightarrow> bool" where
  "present Missing = False"
| "present x = True"

text \<open>The reads \<^verbatim>\<open>x.t\<close> and \<^verbatim>\<open>x.v\<close>: a builtin has neither property.\<close>

fun slot_t :: "slot \<Rightarrow> jsval" where
  "slot_t (Wrapped dat) = Number (Intg (t dat))"
| "slot_t x = Undefined"

fun slot_v :: "slot \<Rightarrow> jsval" where
  "slot_v (Wrapped dat) = v dat"
| "slot_v x = Undefined"

text \<open>
  \<^verbatim>\<open>data.t !== 0 && data.t < Date.now()\<close>: for a builtin \<open>data.t\<close> is \<open>undefined\<close>,
  which differs from 0 but is not less than any number.
\<close>

fun stale :: "int \<Rightarrow> slot \<Rightarrow> bool" where
  "stale now (Wrapped dat) = (t dat \<noteq> 0 \<and> t dat < now)"
| "stale now x = False"

text \<open>\<^verbatim>\<open>_unwrap\<close> of what a read yields: without a \<open>v\<close> the answer is \<open>null\<close>.\<close>

fun unwrap_slot :: "Options \<Rightarrow> slot \<Rightarrow> bool \<Rightarrow> jsval" where
  "unwrap_slot opts (Wrapped dat) asClone0 = unwrap opts dat asClone0"
| "unwrap_slot opts x asClone0 = Null"

text \<open>
  The assignment \<^verbatim>\<open>this.data[ key ] = wrapped\<close> sets the own property, creating it
  when there is none (also under an inherited name, which it then shadows). The one
  exception is the name \<^verbatim>\<open>__proto__\<close> without an own property: there the assignment
  runs the setter of \<^verbatim>\<open>Object.prototype\<close> and replaces the prototype of the map by
  the wrapped value. The model describes maps with the prototype of a plain object
  only and stops at this step (\<open>None\<close>).
\<close>

definition assign :: "string \<Rightarrow> entry \<Rightarrow> NodeCache \<Rightarrow> NodeCache option" where
  "assign name dat s =
     (if name = ''__proto__'' \<and> map_of (data s) name = None then None
      else Some (s\<lparr>data := AList.update name dat (data s)\<rparr>))"

subsection \<open>del\<close>

text \<open>\<^verbatim>\<open>delete this.data[ key ]\<close> removes an own property and nothing else.\<close>

fun del_loop :: "jsval list \<Rightarrow> int \<Rightarrow> NodeCache \<Rightarrow> NodeCache \<times> (error + jsval)" where
  "del_loop [] delCount s = (s, Inr (Number (Intg delCount)))"
| "del_loop (key # ks) delCount s =
     (case isInvalidKey key of
        Some err \<Rightarrow> (s, Inl err)
      | None \<Rightarrow>
         (if present (lookup s (ToPropertyKey key)) then
            (case getValLength (options s)
                    (unwrap_slot (options s) (lookup s (ToPropertyKey key)) False) of
               Inl e \<Rightarrow> (s, Inl e)
             | Inr n \<Rightarrow>
                 del_loop ks (delCount + 1)
                   (emit (EvDel key (slot_v (lookup s (ToPropertyKey key))))
                      ((upd_stats (\<lambda>st. st\<lparr>vsize := num_sub (vsize st) n,
                                           ksize := minus_assign (ksize st) (getKeyLength key),
                                           keys := num_sub (keys st) (Intg 1)\<rparr>) s)
                       \<lparr>data := AList.delete (ToPropertyKey key) (data s)\<rparr>)))
          else
            del_loop ks delCount
              (upd_stats (\<lambda>st. st\<lparr>misses := num_add (misses st) (Intg 1)\<rparr>) s)))"

definition del :: "jsval \<Rightarrow> NodeCache \<Rightarrow> NodeCache \<times> (error + jsval)" where
  "del keys_arg s = del_loop (case keys_arg of Array ks \<Rightarrow> ks | _ \<Rightarrow> [keys_arg]) 0 s"

subsection \<open>The freshness check\<close>

definition check :: "int \<Rightarrow> jsval \<Rightarrow> slot \<Rightarrow> NodeCache \<Rightarrow> NodeCache \<times> (error + bool)" where
  "check now key dat s =
     (if stale now dat then
        (case del key s of
           (s1, Inl e) \<Rightarrow> (s1, Inl e)
         | (s1, Inr n) \<Rightarrow>
             (emit (EvExpired key (unwrap_slot (options s1) dat True)) s1, Inr False))
      else (s, Inr True))"

subsection \<open>get and mget\<close>

text \<open>The \<open>else\<close> branch of \<open>get\<close>: count a miss, then throw or return \<open>undefined\<close>.\<close>

definition get_miss :: "jsval \<Rightarrow> bool \<Rightarrow> NodeCache \<Rightarrow> NodeCache \<times> (error + jsval)" where
  "get_miss key errorOnMissing_arg s =
     (let s1 = upd_stats (\<lambda>st. st\<lparr>misses := num_add (misses st) (Intg 1)\<rparr>) s
      in if errorOnMissing (options s1) \<or> errorOnMissing_arg
         then (s1, Inl (ENOTFOUND key))
         else (s1, Inr Undefined))"

definition get :: "int \<Rightarrow> jsval \<Rightarrow> bool \<Rightarrow> NodeCache \<Rightarrow> NodeCache \<times> (error + jsval)" where
  "get now key errorOnMissing_arg s =
     (case isInvalidKey key of
        Some err \<Rightarrow> (s, Inl err)
      | None \<Rightarrow>
         (if present (lookup s (ToPropertyKey key)) then
            (case check now key (lookup s (ToPropertyKey key)) s of
               (s1, Inl e) \<Rightarrow> (s1, Inl e)
             | (s1, Inr fresh) \<Rightarrow>
                 if fresh then
                   (let s2 = upd_stats (\<lambda>st. st\<lparr>hits := num_add (hits st) (Intg 1)\<rparr>) s1
                    in if present (lookup s2 (ToPropertyKey key))
                       then (s2, Inr (unwrap_slot (options s2)
                                        (lookup s2 (ToPropertyKey key)) True))
                       else (s2, Inl TypeError))
                 else get_miss key errorOnMissing_arg s1)
          else get_miss key errorOnMissing_arg s))"

text \<open>
  What \<open>mget\<close> returns: the object of the found keys, or, for an argument that is no
  array, the error object itself as an ordinary value.
\<close>

datatype mget_ret = Value jsval | ErrorObject error

fun mget_loop ::
  "int \<Rightarrow> jsval list \<Rightarrow> (string \<times> jsval) list \<Rightarrow> NodeCache \<Rightarrow> NodeCache \<times> (error + mget_ret)" where
  "mget_loop now [] oRet s = (s, Inr (Value (Object oRet)))"
| "mget_loop now (key # ks) oRet s =
     (case isInvalidKey key of
        Some err \<Rightarrow> (s, Inl err)
      | None \<Rightarrow>
         (if present (lookup s (ToPropertyKey key)) then
            (case check now key (lookup s (ToPropertyKey key)) s of
               (s1, Inl e) \<Rightarrow> (s1, Inl e)
             | (s1, Inr fresh) \<Rightarrow>
                 if fresh then
                   (let s2 = upd_stats (\<lambda>st. st\<lparr>hits := num_add (hits st) (Intg 1)\<rparr>) s1
                    in if present (lookup s2 (ToPropertyKey key))
                       then mget_loop now ks
                              (AList.update (ToPropertyKey key)
                                 (unwrap_slot (options s2) (lookup s2 (ToPropertyKey key)) True)
                                 oRet)
                              s2
                       else (s2, Inl TypeError))
                 else
                   mget_loop now ks oRet
                     (upd_stats (\<lambda>st. st\<lparr>misses := num_add (misses st) (Intg 1)\<rparr>) s1))
          else
            mget_loop now ks oRet
              (upd_stats (\<lambda>st. st\<lparr>misses := num_add (misses st) (Intg 1)\<rparr>) s)))"

definition mget :: "int \<Rightarrow> jsval \<Rightarrow> NodeCache \<Rightarrow> NodeCache \<times> (error + mget_ret)" where
  "mget now keys_arg s =
     (case keys_arg of
        Array ks \<Rightarrow> mget_loop now ks [] s
      | _ \<Rightarrow> (s, Inr (ErrorObject EKEYSTYPE)))"

subsection \<open>set\<close>

text \<open>
  The TTL argument of \<open>set\<close> is a number or left out (\<open>None\<close>); a TTL given as a
  string is outside the model. With \<open>forceString\<close> a value that is no string is
  replaced by its serialisation, which is \<open>undefined\<close> when there is none.
  \<^verbatim>\<open>if (this.data[ key ])\<close> holds for an own entry and for an inherited builtin alike.
\<close>

definition set' ::
  "int \<Rightarrow> jsval \<Rightarrow> jsval \<Rightarrow> jsnum option \<Rightarrow> NodeCache \<Rightarrow> NodeCache \<times> (error + jsval)" where
  "set' now key value0 ttl_arg s =
     (let val = (if forceString (options s) \<and> \<not> isString value0
                 then (case JSON_stringify value0 of None \<Rightarrow> Undefined | Some str \<Rightarrow> String str)
                 else value0)
      in case isInvalidKey key of
           Some err \<Rightarrow> (s, Inl err)
         | None \<Rightarrow>
            (let old = lookup s (ToPropertyKey key);
                 existent = present old
             in case (if present old
                      then (case getValLength (options s) (unwrap_slot (options s) old False) of
                              Inl e \<Rightarrow> Inl e
                            | Inr n \<Rightarrow>
                                Inr (upd_stats (\<lambda>st. st\<lparr>vsize := num_sub (vsize st) n\<rparr>) s))
                      else Inr s)
                of
                  Inl e \<Rightarrow> (s, Inl e)
                | Inr s1 \<Rightarrow>
                   (case assign (ToPropertyKey key)
                           (wrap now (options s1) val ttl_arg True) s1 of
                      None \<Rightarrow> (s1, Inl OutsideModel)
                    | Some s2 \<Rightarrow>
                       (case getValLength (options s2) val of
                          Inl e \<Rightarrow> (s2, Inl e)
                        | Inr n \<Rightarrow>
                           (let s3 = upd_stats (\<lambda>st. st\<lparr>vsize := num_add (vsize st) n\<rparr>) s2;
                                s4 = (if \<not> existent
                                      then upd_stats
                                             (\<lambda>st. st\<lparr>keys := num_add (keys st) (Intg 1)\<rparr>)
                                             (upd_stats
                                                (\<lambda>st. st\<lparr>ksize := plus_assign (ksize st)
                                                                       (getKeyLength key)\<rparr>) s3)
                                      else s3)
                            in (emit (EvSet key val) s4, Inr (Bool True)))))))"

subsection \<open>ttl and getTtl\<close>

text \<open>
  The second argument of \<open>ttl\<close> is a number or left out. \<^verbatim>\<open>if (!ttl)\<close> replaces a
  missing one, \<open>0\<close> and \<open>NaN\<close> by the default; \<^verbatim>\<open>if (!key)\<close> answers \<open>false\<close> before
  the key is validated.
\<close>

definition ttl :: "int \<Rightarrow> jsval \<Rightarrow> jsnum option \<Rightarrow> NodeCache \<Rightarrow> NodeCache \<times> (error + jsval)" where
  "ttl now key ttl_arg s =
     (let ttl1 = (case ttl_arg of
                    Some (Intg n) \<Rightarrow> (if n = 0 then stdTTL (options s) else n)
                  | _ \<Rightarrow> stdTTL (options s))
      in if \<not> truthy key then (s, Inr (Bool False))
         else case isInvalidKey key of
           Some err \<Rightarrow> (s, Inl err)
         | None \<Rightarrow>
            (if present (lookup s (ToPropertyKey key)) then
               (case check now key (lookup s (ToPropertyKey key)) s of
                  (s1, Inl e) \<Rightarrow> (s1, Inl e)
                | (s1, Inr fresh) \<Rightarrow>
                    if fresh then
                      (if ttl1 \<ge> 0 then
                         (if present (lookup s1 (ToPropertyKey key)) then
                            (case assign (ToPropertyKey key)
                                    (wrap now (options s1)
                                       (slot_v (lookup s1 (ToPropertyKey key)))
                                       (Some (Intg ttl1)) False) s1 of
                               None \<Rightarrow> (s1, Inl OutsideModel)
                             | Some s2 \<Rightarrow> (s2, Inr (Bool True)))
                          else (s1, Inl TypeError))
                       else
                         (case del key s1 of
                            (s2, Inl e) \<Rightarrow> (s2, Inl e)
                          | (s2, Inr n) \<Rightarrow> (s2, Inr (Bool True))))
                    else (s1, Inr (Bool False)))
             else (s, Inr (Bool False))))"

definition getTtl :: "int \<Rightarrow> jsval \<Rightarrow> NodeCache \<Rightarrow> NodeCache \<times> (error + jsval)" where
  "getTtl now key s =
     (if \<not> truthy key then (s, Inr Undefined)
      else case isInvalidKey key of
        Some err \<Rightarrow> (s, Inl err)
      | None \<Rightarrow>
         (if present (lookup s (ToPropertyKey key)) then
            (case check now key (lookup s (ToPropertyKey key)) s of
               (s1, Inl e) \<Rightarrow> (s1, Inl e)
             | (s1, Inr fresh) \<Rightarrow>
                 if fresh then
                   (if present (lookup s1 (ToPropertyKey key))
                    then (s1, Inr (slot_t (lookup s1 (ToPropertyKey key))))
                    else (s1, Inl TypeError))
                 else (s1, Inr Undefined))
          else (s, Inr Undefined)))"

subsection \<open>getStats and flushAll\<close>

text \<open>\<^verbatim>\<open>return this.stats\<close>: the reference itself, not a copy of the object.\<close>

definition getStats :: "NodeCache \<Rightarrow> ref" where
  "getStats s = stats s"

text \<open>
  \<open>flushAll\<close> replaces the map and the statistics object by new ones. The sweep it
  starts runs over the empty map; the timer is outside the model.
\<close>

definition flushAll :: "NodeCache \<Rightarrow> NodeCache" where
  "flushAll s =
     emit EvFlush
       (s\<lparr>data := [], stats := next_ref s,
          heap := (heap s)(next_ref s := zero_stats),
          next_ref := Suc (next_ref s)\<rparr>)"

text \<open>
  A client that holds a reference to a statistics object and assigns to its fields,
  leaving the object with the contents \<open>st\<close>.
\<close>

definition mutate :: "ref \<Rightarrow> Stats \<Rightarrow> NodeCache \<Rightarrow> NodeCache" where
  "mutate r st s = s\<lparr>heap := (heap s)(r := st)\<rparr>"

section \<open>Notions used in the statements\<close>

text \<open>
  A key passes the test \<^verbatim>\<open>this.data[ key ] != null && this._check(...)\<close> at time
  \<open>now\<close>: the read finds something, and it is not past its expiry.
\<close>

definition fresh_in :: "int \<Rightarrow> NodeCache \<Rightarrow> jsval \<Rightarrow> bool" where
  "fresh_in now s key =
     (present (lookup s (ToPropertyKey key)) \<and> \<not> stale now (lookup s (ToPropertyKey key)))"

text \<open>The instance after the lazy check of one key: a stale entry is gone.\<close>

definition expire :: "int \<Rightarrow> jsval \<Rightarrow> NodeCache \<Rightarrow> NodeCache" where
  "expire now key s =
     (if stale now (lookup s (ToPropertyKey key))
      then emit (EvExpired key (unwrap_slot (options s) (lookup s (ToPropertyKey key)) True))
             (fst (del key s))
      else s)"

subsection \<open>Example instances\<close>

text \<open>A cache with default options after \<^verbatim>\<open>set(0, "x")\<close>.\<close>

definition zero_stored :: NodeCache where
  "zero_stored =
     fst (set' 0 (Number (Intg 0)) (String ''x'') None (new_NodeCache default_options))"

text \<open>A cache with default options after \<^verbatim>\<open>set("", "x")\<close>.\<close>

definition empty_stored :: NodeCache where
  "empty_stored =
     fst (set' 0 (String []) (String ''x'') None (new_NodeCache default_options))"

text \<open>
  A cache after \<^verbatim>\<open>set("a", "x", 1)\<close> at time 0: the entry expires at 1000. The
  argument is the \<open>errorOnMissing\<close> option.
\<close>

definition a_for_1s :: "bool \<Rightarrow> NodeCache" where
  "a_for_1s eom =
     fst (set' 0 (String ''a'') (String ''x'') (Some (Intg 1))
            (new_NodeCache (default_options\<lparr>errorOnMissing := eom\<rparr>)))"

text \<open>
  A cache with default TTL 10 s after \<^verbatim>\<open>set("a", "x")\<close> at time 1000: the entry
  expires at 11000.
\<close>

definition a_std10 :: NodeCache where
  "a_std10 =
     fst (set' 1000 (String ''a'') (String ''x'') None
            (new_NodeCache (default_options\<lparr>stdTTL := 10\<rparr>)))"

text \<open>A cache with default options after \<^verbatim>\<open>set(1, "x")\<close>.\<close>

definition one_stored :: NodeCache where
  "one_stored =
     fst (set' 0 (Number (Intg 1)) (String ''x'') None (new_NodeCache default_options))"


section \<open>Sequences of operations and the statistics invariant\<close>

text \<open>
  The public operations as commands, each run at its own time; the instance continues
  after a call that threw.
\<close>

datatype op =
    Set jsval jsval "jsnum option"
  | Get jsval bool
  | Mget jsval
  | Del jsval
  | Ttl jsval "jsnum option"
  | GetTtl jsval
  | FlushAll

fun apply_op :: "int \<Rightarrow> op \<Rightarrow> NodeCache \<Rightarrow> NodeCache" where
  "apply_op now (Set key val ttl_arg) s = fst (set' now key val ttl_arg s)"
| "apply_op now (Get key errorOnMissing_arg) s = fst (get now key errorOnMissing_arg s)"
| "apply_op now (Mget keys_arg) s = fst (mget now keys_arg s)"
| "apply_op now (Del keys_arg) s = fst (del keys_arg s)"
| "apply_op now (Ttl key ttl_arg) s = fst (ttl now key ttl_arg s)"
| "apply_op now (GetTtl key) s = fst (getTtl now key s)"
| "apply_op now FlushAll s = flushAll s"

fun run :: "(int \<times> op) list \<Rightarrow> NodeCache \<Rightarrow> NodeCache" where
  "run [] s = s"
| "run ((now, c) # cs) s = run cs (apply_op now c s)"

text \<open>The estimated size of the value of a stored entry, as \<open>del\<close> computes it.\<close>

definition valSize :: "Options \<Rightarrow> entry \<Rightarrow> int" where
  "valSize opts dat =
     (case getValLength opts (unwrap opts dat False) of Inr (Intg n) \<Rightarrow> n | _ \<Rightarrow> 0)"

text \<open>
  The invariant of the statistics: \<open>keys\<close> is the number of stored entries, \<open>ksize\<close>
  the sum of the lengths of their names, \<open>vsize\<close> the sum of their estimated value
  sizes.
\<close>

definition stats_inv :: "NodeCache \<Rightarrow> bool" where
  "stats_inv s \<longleftrightarrow>
     distinct (map fst (data s))
     \<and> keys (the_stats s) = Intg (int (length (data s)))
     \<and> ksize (the_stats s) = Intg (sum_list (map (\<lambda>p. int (length (fst p))) (data s)))
     \<and> vsize (the_stats s) = Intg (sum_list (map (\<lambda>p. valSize (options s) (snd p)) (data s)))"

text \<open>
  The keys an operation is called with, and the condition on a key that it is no
  number and no name that a plain object inherits.
\<close>

fun plain_key :: "jsval \<Rightarrow> bool" where
  "plain_key (Number n) = False"
| "plain_key (String k) = (k \<notin> set Object_prototype_names)"
| "plain_key x = True"

fun keys_of :: "op \<Rightarrow> jsval list" where
  "keys_of (Set key val ttl_arg) = [key]"
| "keys_of (Get key errorOnMissing_arg) = [key]"
| "keys_of (Mget keys_arg) = (case keys_arg of Array ks \<Rightarrow> ks | _ \<Rightarrow> [])"
| "keys_of (Del keys_arg) = (case keys_arg of Array ks \<Rightarrow> ks | _ \<Rightarrow> [keys_arg])"
| "keys_of (Ttl key ttl_arg) = [key]"
| "keys_of (GetTtl key) = [key]"
| "keys_of FlushAll = []"

text \<open>
  With \<open>forceString\<close>, \<open>set\<close> of \<open>undefined\<close> throws a \<open>TypeError\<close> halfway (the
  serialisation has no length).
\<close>

fun serialisable :: "Options \<Rightarrow> op \<Rightarrow> bool" where
  "serialisable opts (Set key val ttl_arg) = (\<not> (forceString opts \<and> val = Undefined))"
| "serialisable opts c = True"

text \<open>
  An operation that \<open>ok_op\<close> admits passes no number and no inherited name as a key
  and cannot throw \<open>TypeError\<close>.
\<close>

definition ok_op :: "Options \<Rightarrow> op \<Rightarrow> bool" where
  "ok_op opts c \<longleftrightarrow> list_all plain_key (keys_of c) \<and> serialisable opts c"

text \<open>A cache with \<open>forceString\<close> after the call \<^verbatim>\<open>set("a", undefined)\<close>, which throws.\<close>

definition undefined_forced :: "NodeCache \<times> (error + jsval)" where
  "undefined_forced =
     set' 0 (String ''a'') Undefined None
       (new_NodeCache (default_options\<lparr>forceString := True\<rparr>))"

section \<open>Basic facts about the internal methods\<close>

lemma valid_key_iff:
  "isInvalidKey key = None \<longleftrightarrow> (\<exists>s. key = String s) \<or> (\<exists>n. key = Number n)"
  by (cases key) (simp_all add: isInvalidKey_def validKeyTypes_def)

lemma JSON_stringify_None: "JSON_stringify x = None \<longleftrightarrow> x = Undefined"
proof (cases x)
  case (Number n) then show ?thesis by (cases n) simp_all
qed simp_all

lemma unwrap_not_Undefined: "unwrap opts dat b \<noteq> Undefined"
  by (cases "v dat") (simp_all add: unwrap_def clone_def Let_def)

lemma unwrap_slot_not_Undefined: "unwrap_slot opts sl b \<noteq> Undefined"
  by (cases sl) (simp_all add: unwrap_not_Undefined)

lemma getValLength_total:
  "x \<noteq> Undefined \<Longrightarrow> \<exists>n. getValLength opts x = Inr (Intg n)"
  by (cases "JSON_stringify x") (auto simp: getValLength_def JSON_stringify_None)

lemma getValLength_unwrap: "\<exists>n. getValLength opts (unwrap opts dat b) = Inr (Intg n)"
  by (rule getValLength_total [OF unwrap_not_Undefined])

lemma getValLength_unwrap_slot:
  "\<exists>n. getValLength opts (unwrap_slot opts sl b) = Inr (Intg n)"
  by (rule getValLength_total [OF unwrap_slot_not_Undefined])

subsection \<open>Reading the map\<close>

lemma lookup_own: "map_of (data s) name = Some dat \<Longrightarrow> lookup s name = Wrapped dat"
  by (simp add: lookup_def)

lemma lookup_Missing:
  "lookup s name = Missing \<longleftrightarrow>
     map_of (data s) name = None \<and> name \<notin> set Object_prototype_names"
  by (simp add: lookup_def split: option.splits)

lemma lookup_plain:
  "name \<notin> set Object_prototype_names \<Longrightarrow>
   lookup s name = (case map_of (data s) name of Some dat \<Rightarrow> Wrapped dat | None \<Rightarrow> Missing)"
  by (simp add: lookup_def)

lemma stale_present: "stale now sl \<Longrightarrow> present sl"
  by (cases sl) simp_all

lemma stale_Wrapped: "stale now sl \<Longrightarrow> \<exists>dat. sl = Wrapped dat"
  by (cases sl) simp_all

lemma lookup_same_data: "data s' = data s \<Longrightarrow> lookup s' name = lookup s name"
  by (simp add: lookup_def)

lemma lookup_upd_stats [simp]: "lookup (upd_stats f s) name = lookup s name"
  by (simp add: lookup_def upd_stats_def)

lemma options_upd_stats [simp]: "options (upd_stats f s) = options s"
  by (simp add: upd_stats_def)

lemma data_upd_stats [simp]: "data (upd_stats f s) = data s"
  by (simp add: upd_stats_def)

lemma options_emit [simp]: "options (emit ev s) = options s"
  by (simp add: emit_def)

lemma data_emit [simp]: "data (emit ev s) = data s"
  by (simp add: emit_def)

lemma lookup_emit [simp]: "lookup (emit ev s) name = lookup s name"
  by (simp add: lookup_def)

subsection \<open>del and the freshness check\<close>

lemma del_valid_key: "isInvalidKey key = None \<Longrightarrow> del key s = del_loop [key] 0 s"
  by (auto simp: del_def valid_key_iff)

lemma del_absent:
  assumes "isInvalidKey key = None" and "lookup s (ToPropertyKey key) = Missing"
  shows "del key s =
    (upd_stats (\<lambda>st. st\<lparr>misses := num_add (misses st) (Intg 1)\<rparr>) s, Inr (Number (Intg 0)))"
  using assms by (simp add: del_valid_key)

lemma del_present:
  assumes "isInvalidKey key = None" and "present (lookup s (ToPropertyKey key))"
    and "getValLength (options s) (unwrap_slot (options s) (lookup s (ToPropertyKey key)) False)
           = Inr n"
  shows "del key s =
    (emit (EvDel key (slot_v (lookup s (ToPropertyKey key))))
       ((upd_stats (\<lambda>st. st\<lparr>vsize := num_sub (vsize st) n,
                            ksize := minus_assign (ksize st) (getKeyLength key),
                            keys := num_sub (keys st) (Intg 1)\<rparr>) s)
        \<lparr>data := AList.delete (ToPropertyKey key) (data s)\<rparr>),
     Inr (Number (Intg 1)))"
  using assms by (simp add: del_valid_key)

lemma del_present_ex:
  assumes "isInvalidKey key = None" and "present (lookup s (ToPropertyKey key))"
  shows "\<exists>n. del key s =
    (emit (EvDel key (slot_v (lookup s (ToPropertyKey key))))
       ((upd_stats (\<lambda>st. st\<lparr>vsize := num_sub (vsize st) (Intg n),
                            ksize := minus_assign (ksize st) (getKeyLength key),
                            keys := num_sub (keys st) (Intg 1)\<rparr>) s)
        \<lparr>data := AList.delete (ToPropertyKey key) (data s)\<rparr>),
     Inr (Number (Intg 1)))"
proof -
  obtain n where
    "getValLength (options s) (unwrap_slot (options s) (lookup s (ToPropertyKey key)) False)
       = Inr (Intg n)"
    using getValLength_unwrap_slot by blast
  from del_present [OF assms this] show ?thesis by blast
qed

lemma del_own_ex:
  assumes "isInvalidKey key = None" and "map_of (data s) (ToPropertyKey key) = Some dat"
  shows "\<exists>n. del key s =
    (emit (EvDel key (v dat))
       ((upd_stats (\<lambda>st. st\<lparr>vsize := num_sub (vsize st) (Intg n),
                            ksize := minus_assign (ksize st) (getKeyLength key),
                            keys := num_sub (keys st) (Intg 1)\<rparr>) s)
        \<lparr>data := AList.delete (ToPropertyKey key) (data s)\<rparr>),
     Inr (Number (Intg 1)))"
  using del_present_ex [OF assms(1), of s] lookup_own [OF assms(2)] by simp

lemma check_fresh: "\<not> stale now dat \<Longrightarrow> check now key dat s = (s, Inr True)"
  by (simp add: check_def)

lemma check_stale:
  assumes "isInvalidKey key = None" and "stale now (lookup s (ToPropertyKey key))"
  shows "check now key (lookup s (ToPropertyKey key)) s =
    (emit (EvExpired key (unwrap_slot (options s) (lookup s (ToPropertyKey key)) True))
       (fst (del key s)), Inr False)"
proof -
  from del_present_ex [OF assms(1) stale_present [OF assms(2)]]
  obtain s1 where d: "del key s = (s1, Inr (Number (Intg 1)))"
    and o: "options s1 = options s"
    by (auto simp: emit_def upd_stats_def)
  show ?thesis using assms(2) d o by (simp add: check_def)
qed

lemma check_expire:
  assumes "isInvalidKey key = None" and "present (lookup s (ToPropertyKey key))"
  shows "check now key (lookup s (ToPropertyKey key)) s
           = (expire now key s, Inr (fresh_in now s key))"
proof (cases "stale now (lookup s (ToPropertyKey key))")
  case True
  then show ?thesis
    using check_stale [OF assms(1) True] assms(2) by (simp add: expire_def fresh_in_def)
next
  case False
  then show ?thesis
    using check_fresh [OF False, of key s] assms(2) by (simp add: expire_def fresh_in_def)
qed

lemma expire_fresh: "fresh_in now s key \<Longrightarrow> expire now key s = s"
  by (simp add: expire_def fresh_in_def)

lemma expire_Missing: "lookup s (ToPropertyKey key) = Missing \<Longrightarrow> expire now key s = s"
  by (simp add: expire_def)

subsection \<open>One step of the loop of mget\<close>

lemma mget_loop_step:
  assumes "isInvalidKey key = None"
  shows "mget_loop now (key # ks) oRet s =
    (if fresh_in now s key
     then mget_loop now ks
            (AList.update (ToPropertyKey key)
               (unwrap_slot (options s) (lookup s (ToPropertyKey key)) True) oRet)
            (upd_stats (\<lambda>st. st\<lparr>hits := num_add (hits st) (Intg 1)\<rparr>) s)
     else mget_loop now ks oRet
            (upd_stats (\<lambda>st. st\<lparr>misses := num_add (misses st) (Intg 1)\<rparr>) (expire now key s)))"
proof (cases "present (lookup s (ToPropertyKey key))")
  case False
  then have "lookup s (ToPropertyKey key) = Missing"
    by (cases "lookup s (ToPropertyKey key)") simp_all
  then show ?thesis using assms by (simp add: fresh_in_def expire_Missing)
next
  case True
  note c = check_expire [OF assms True, of now]
  show ?thesis
  proof (cases "fresh_in now s key")
    case f: True
    then show ?thesis using assms True c
      by (simp add: expire_fresh Let_def)
  next
    case f: False
    then show ?thesis using assms True c by simp
  qed
qed

lemma mget_loop_valid_prefix:
  "\<forall>k\<in>set ks. isInvalidKey k = None \<Longrightarrow>
   \<exists>s' oRet'. mget_loop now (ks @ rest) oRet s = mget_loop now rest oRet' s'"
proof (induction ks arbitrary: s oRet)
  case Nil
  show ?case by auto
next
  case (Cons k ks)
  then have k: "isInvalidKey k = None" and ks: "\<forall>k\<in>set ks. isInvalidKey k = None" by simp_all
  show ?case
    unfolding append_Cons mget_loop_step [OF k]
    using Cons.IH [OF ks] by (cases "fresh_in now s k") simp_all
qed

subsection \<open>Unfolding the operations on concrete instances\<close>

lemmas eval_defs =
  set'_def get_def get_miss_def del_def check_def ttl_def getTtl_def mget_def flushAll_def
  getStats_def mutate_def new_NodeCache_def default_options_def zero_stats_def
  isInvalidKey_def validKeyTypes_def the_stats_def upd_stats_def emit_def getValLength_def
  wrap_def unwrap_def clone_def Let_def show_int_def digits.simps lookup_def assign_def
  Object_prototype_names_def

lemma zero_stored_data: "data zero_stored = [(''0'', \<lparr>t = 0, v = String ''x''\<rparr>)]"
  by (simp add: zero_stored_def eval_defs)

lemma empty_stored_data: "data empty_stored = [([], \<lparr>t = 0, v = String ''x''\<rparr>)]"
  by (simp add: empty_stored_def eval_defs)

lemma a_for_1s_data: "data (a_for_1s eom) = [(''a'', \<lparr>t = 1000, v = String ''x''\<rparr>)]"
  by (simp add: a_for_1s_def eval_defs)

lemma a_for_1s_options: "errorOnMissing (options (a_for_1s eom)) = eom"
  by (simp add: a_for_1s_def eval_defs)

subsection \<open>Counters and the lazy check\<close>

lemma num_add_0 [simp]: "num_add h (Intg 0) = h"
  by (cases h) simp_all

lemma num_add_incr: "num_add (num_add h (Intg a)) (Intg b) = num_add h (Intg (a + b))"
  by (cases h) simp_all

lemma expire_cases:
  assumes "isInvalidKey key = None"
  shows "(\<not> stale now (lookup s (ToPropertyKey key)) \<and> expire now key s = s)
    \<or> (stale now (lookup s (ToPropertyKey key)) \<and>
        (\<exists>n. expire now key s =
           emit (EvExpired key (unwrap_slot (options s) (lookup s (ToPropertyKey key)) True))
             (emit (EvDel key (slot_v (lookup s (ToPropertyKey key))))
                ((upd_stats (\<lambda>st. st\<lparr>vsize := num_sub (vsize st) (Intg n),
                                     ksize := minus_assign (ksize st) (getKeyLength key),
                                     keys := num_sub (keys st) (Intg 1)\<rparr>) s)
                 \<lparr>data := AList.delete (ToPropertyKey key) (data s)\<rparr>))))"
proof (cases "stale now (lookup s (ToPropertyKey key))")
  case False
  then show ?thesis by (simp add: expire_def)
next
  case True
  from del_present_ex [OF assms stale_present [OF True]] obtain n where
    d: "del key s =
      (emit (EvDel key (slot_v (lookup s (ToPropertyKey key))))
         ((upd_stats (\<lambda>st. st\<lparr>vsize := num_sub (vsize st) (Intg n),
                              ksize := minus_assign (ksize st) (getKeyLength key),
                              keys := num_sub (keys st) (Intg 1)\<rparr>) s)
          \<lparr>data := AList.delete (ToPropertyKey key) (data s)\<rparr>),
       Inr (Number (Intg 1)))" by blast
  show ?thesis using True by (auto simp: expire_def d)
qed

lemma expire_options:
  "isInvalidKey key = None \<Longrightarrow> options (expire now key s) = options s"
  using expire_cases [of key now s] by auto

lemma expire_hits_misses:
  assumes "isInvalidKey key = None"
  shows "hits (the_stats (expire now key s)) = hits (the_stats s)
    \<and> misses (the_stats (expire now key s)) = misses (the_stats s)"
  using expire_cases [OF assms, of now s]
  by (auto simp: emit_def upd_stats_def the_stats_def)

lemma expire_map_of:
  assumes "isInvalidKey key = None"
  shows "map_of (data (expire now key s)) name =
           (if ToPropertyKey key = name \<and> stale now (lookup s name) then None
            else map_of (data s) name)"
  using expire_cases [OF assms, of now s]
  by (auto simp: delete_conv)

lemma fresh_in_expire:
  assumes "isInvalidKey key = None" and "ToPropertyKey k \<notin> set Object_prototype_names"
  shows "fresh_in now (expire now key s) k = fresh_in now s k"
proof -
  have "lookup (expire now key s) (ToPropertyKey k) =
          (if ToPropertyKey key = ToPropertyKey k \<and> stale now (lookup s (ToPropertyKey k))
           then Missing else lookup s (ToPropertyKey k))"
    by (simp add: lookup_plain [OF assms(2)] expire_map_of [OF assms(1)])
  then show ?thesis by (simp add: fresh_in_def)
qed

lemma mget_loop_result:
  assumes "\<forall>k\<in>set ks. isInvalidKey k = None \<and> ToPropertyKey k \<notin> set Object_prototype_names"
  shows "\<exists>s' oRet'. mget_loop now ks oRet s = (s', Inr (Value (Object oRet')))
    \<and> hits (the_stats s')
        = num_add (hits (the_stats s)) (Intg (int (length (filter (fresh_in now s) ks))))
    \<and> misses (the_stats s')
        = num_add (misses (the_stats s))
            (Intg (int (length (filter (\<lambda>k. \<not> fresh_in now s k) ks))))
    \<and> (\<forall>name. map_of oRet' name =
          (if \<exists>k\<in>set ks. ToPropertyKey k = name \<and> fresh_in now s k
           then Some (unwrap_slot (options s) (lookup s name) True)
           else map_of oRet name))"
  using assms
proof (induction ks arbitrary: s oRet)
  case Nil
  show ?case by simp
next
  case (Cons k ks)
  then have k: "isInvalidKey k = None"
    and ks: "\<forall>k\<in>set ks. isInvalidKey k = None \<and> ToPropertyKey k \<notin> set Object_prototype_names"
    by simp_all
  from Cons.prems have plain: "\<forall>k'\<in>set (k # ks). ToPropertyKey k' \<notin> set Object_prototype_names"
    by simp
  show ?case
  proof (cases "fresh_in now s k")
    case True
    define s1 where "s1 = upd_stats (\<lambda>st. st\<lparr>hits := num_add (hits st) (Intg 1)\<rparr>) s"
    define oRet1 where "oRet1 = AList.update (ToPropertyKey k)
               (unwrap_slot (options s) (lookup s (ToPropertyKey k)) True) oRet"
    have step: "mget_loop now (k # ks) oRet s = mget_loop now ks oRet1 s1"
      unfolding mget_loop_step [OF k] using True by (simp add: s1_def oRet1_def)
    have f: "fresh_in now s1 = fresh_in now s"
      by (rule ext) (simp add: fresh_in_def s1_def)
    have o: "options s1 = options s" "lookup s1 = lookup s"
      by (simp_all add: s1_def fun_eq_iff)
    have h: "hits (the_stats s1) = num_add (hits (the_stats s)) (Intg 1)"
      "misses (the_stats s1) = misses (the_stats s)"
      by (simp_all add: s1_def upd_stats_def the_stats_def)
    from Cons.IH [OF ks, of oRet1 s1] obtain s' oRet' where
      r: "mget_loop now ks oRet1 s1 = (s', Inr (Value (Object oRet')))"
      and rh: "hits (the_stats s')
        = num_add (hits (the_stats s1)) (Intg (int (length (filter (fresh_in now s1) ks))))"
      and rm: "misses (the_stats s')
        = num_add (misses (the_stats s1))
            (Intg (int (length (filter (\<lambda>k. \<not> fresh_in now s1 k) ks))))"
      and ro: "\<forall>name. map_of oRet' name =
          (if \<exists>k\<in>set ks. ToPropertyKey k = name \<and> fresh_in now s1 k
           then Some (unwrap_slot (options s1) (lookup s1 name) True)
           else map_of oRet1 name)"
      by blast
    have "hits (the_stats s')
        = num_add (hits (the_stats s)) (Intg (int (length (filter (fresh_in now s) (k # ks)))))"
      using rh True by (simp add: f h num_add_incr)
    moreover have "misses (the_stats s')
        = num_add (misses (the_stats s))
            (Intg (int (length (filter (\<lambda>k. \<not> fresh_in now s k) (k # ks)))))"
      using rm True by (simp add: f h)
    moreover have "\<forall>name. map_of oRet' name =
          (if \<exists>k'\<in>set (k # ks). ToPropertyKey k' = name \<and> fresh_in now s k'
           then Some (unwrap_slot (options s) (lookup s name) True)
           else map_of oRet name)"
      using ro True by (auto simp: f o oRet1_def update_conv)
    ultimately show ?thesis using step r by simp
  next
    case False
    define s1 where "s1 = upd_stats (\<lambda>st. st\<lparr>misses := num_add (misses st) (Intg 1)\<rparr>)
                            (expire now k s)"
    have step: "mget_loop now (k # ks) oRet s = mget_loop now ks oRet s1"
      unfolding mget_loop_step [OF k] using False by (simp add: s1_def)
    have d: "lookup s1 = lookup (expire now k s)" "options s1 = options s"
      by (simp_all add: s1_def fun_eq_iff expire_options [OF k])
    have fp: "fresh_in now s1 k' = fresh_in now s k'"
      if "ToPropertyKey k' \<notin> set Object_prototype_names" for k'
    proof -
      have "fresh_in now s1 k' = fresh_in now (expire now k s) k'"
        by (simp add: fresh_in_def d)
      then show ?thesis by (simp add: fresh_in_expire [OF k that])
    qed
    have f: "filter (fresh_in now s1) ks = filter (fresh_in now s) ks"
      "filter (\<lambda>k. \<not> fresh_in now s1 k) ks = filter (\<lambda>k. \<not> fresh_in now s k) ks"
      using ks by (auto intro!: filter_cong simp: fp)
    have h: "hits (the_stats s1) = hits (the_stats s)"
      "misses (the_stats s1) = num_add (misses (the_stats s)) (Intg 1)"
      using expire_hits_misses [OF k, of now s]
      by (simp_all add: s1_def upd_stats_def the_stats_def)
    from Cons.IH [OF ks, of oRet s1] obtain s' oRet' where
      r: "mget_loop now ks oRet s1 = (s', Inr (Value (Object oRet')))"
      and rh: "hits (the_stats s')
        = num_add (hits (the_stats s1)) (Intg (int (length (filter (fresh_in now s1) ks))))"
      and rm: "misses (the_stats s')
        = num_add (misses (the_stats s1))
            (Intg (int (length (filter (\<lambda>k. \<not> fresh_in now s1 k) ks))))"
      and ro: "\<forall>name. map_of oRet' name =
          (if \<exists>k\<in>set ks. ToPropertyKey k = name \<and> fresh_in now s1 k
           then Some (unwrap_slot (options s1) (lookup s1 name) True)
           else map_of oRet name)"
      by blast
    have "hits (the_stats s')
        = num_add (hits (the_stats s)) (Intg (int (length (filter (fresh_in now s) (k # ks)))))"
      using rh False by (simp add: f h)
    moreover have "misses (the_stats s')
        = num_add (misses (the_stats s))
            (Intg (int (length (filter (\<lambda>k. \<not> fresh_in now s k) (k # ks)))))"
      using rm False by (simp add: f h num_add_incr)
    moreover have "\<forall>name. map_of oRet' name =
          (if \<exists>k'\<in>set (k # ks). ToPropertyKey k' = name \<and> fresh_in now s k'
           then Some (unwrap_slot (options s) (lookup s name) True)
           else map_of oRet name)"
    proof
      fix name
      show "map_of oRet' name =
          (if \<exists>k'\<in>set (k # ks). ToPropertyKey k' = name \<and> fresh_in now s k'
           then Some (unwrap_slot (options s) (lookup s name) True)
           else map_of oRet name)"
      proof (cases "\<exists>k'\<in>set ks. ToPropertyKey k' = name \<and> fresh_in now s k'")
        case True
        then obtain k' where k': "k' \<in> set ks" "ToPropertyKey k' = name" "fresh_in now s k'"
          by blast
        have pn: "name \<notin> set Object_prototype_names" using ks k'(1,2) by auto
        have f1: "fresh_in now s1 k'" using fp [of k'] k' pn by simp
        have "\<not> (ToPropertyKey k = name \<and> stale now (lookup s name))"
          using k'(2,3) by (auto simp: fresh_in_def)
        then have "lookup s1 name = lookup s name"
          by (auto simp: d lookup_plain [OF pn] expire_map_of [OF k])
        moreover have "map_of oRet' name
            = Some (unwrap_slot (options s1) (lookup s1 name) True)"
          using ro [rule_format, of name] k' f1 by auto
        ultimately show ?thesis using True by (simp add: d)
      next
        case F: False
        have "\<not> (\<exists>k'\<in>set ks. ToPropertyKey k' = name \<and> fresh_in now s1 k')"
          using F ks by (auto simp: fp)
        then have "map_of oRet' name = map_of oRet name"
          using ro [rule_format, of name] by (simp only: if_False)
        moreover have "\<not> (\<exists>k'\<in>set (k # ks). ToPropertyKey k' = name \<and> fresh_in now s k')"
          using F False by auto
        ultimately show ?thesis by (simp only: if_False)
      qed
    qed
    ultimately show ?thesis using step r by simp
  qed
qed

subsection \<open>ttl on a fresh entry\<close>

lemma ttl_rewraps:
  assumes "isInvalidKey key = None" and "truthy key"
    and "map_of (data s) (ToPropertyKey key) = Some dat"
    and "\<not> (t dat \<noteq> 0 \<and> t dat < now)"
  shows "0 < n \<Longrightarrow> ttl now key (Some (Intg n)) s =
           (s\<lparr>data := AList.update (ToPropertyKey key)
                        (wrap now (options s) (v dat) (Some (Intg n)) False) (data s)\<rparr>,
            Inr (Bool True))"
    and "0 \<le> stdTTL (options s) \<Longrightarrow> ttl now key None s =
           (s\<lparr>data := AList.update (ToPropertyKey key)
                        (wrap now (options s) (v dat) None False) (data s)\<rparr>,
            Inr (Bool True))"
    and "ttl now key (Some (Intg 0)) s = ttl now key None s"
proof -
  have l: "lookup s (ToPropertyKey key) = Wrapped dat" by (rule lookup_own [OF assms(3)])
  have c: "check now key (Wrapped dat) s = (s, Inr True)"
    by (rule check_fresh) (use assms(4) in simp)
  show "0 < n \<Longrightarrow> ttl now key (Some (Intg n)) s =
           (s\<lparr>data := AList.update (ToPropertyKey key)
                        (wrap now (options s) (v dat) (Some (Intg n)) False) (data s)\<rparr>,
            Inr (Bool True))"
    using assms(1-3) by (simp add: ttl_def l c assign_def Let_def)
  show "0 \<le> stdTTL (options s) \<Longrightarrow> ttl now key None s =
           (s\<lparr>data := AList.update (ToPropertyKey key)
                        (wrap now (options s) (v dat) None False) (data s)\<rparr>,
            Inr (Bool True))"
    using assms(1-3) by (simp add: ttl_def l c assign_def wrap_def Let_def)
  show "ttl now key (Some (Intg 0)) s = ttl now key None s"
    by (simp add: ttl_def)
qed

section \<open>The claims\<close>

subsection \<open>C5: get of a stale entry\<close>

text \<open>
  C5, as the code has it. For a stored entry with \<open>t \<noteq> 0\<close> and \<open>t < now\<close>, \<open>get\<close> of
  its key removes the entry as \<open>del\<close> does (the instance continues from the one \<open>del\<close>
  leaves, and \<open>del\<close> counts one deletion), emits \<open>expired\<close> with the key and the
  unwrapped value after the \<open>del\<close> event, and counts a miss. It returns \<open>undefined\<close>
  when the error-on-missing policy is off, and throws \<open>ENOTFOUND\<close> with the key when
  the option or the argument of the call turns it on. The stored value is not returned
  in either case.
\<close>

theorem get_expired_entry:
  assumes "isInvalidKey key = None"
    and "map_of (data s) (ToPropertyKey key) = Some dat"
    and "t dat \<noteq> 0" and "t dat < now"
  shows "get now key errorOnMissing_arg s =
           (upd_stats (\<lambda>st. st\<lparr>misses := num_add (misses st) (Intg 1)\<rparr>)
              (emit (EvExpired key (unwrap (options s) dat True)) (fst (del key s))),
            if errorOnMissing (options s) \<or> errorOnMissing_arg
            then Inl (ENOTFOUND key) else Inr Undefined)
         \<and> snd (del key s) = Inr (Number (Intg 1))
         \<and> map_of (data (fst (get now key errorOnMissing_arg s))) (ToPropertyKey key) = None
         \<and> emitted (fst (get now key errorOnMissing_arg s))
             = emitted s @ [EvDel key (v dat), EvExpired key (unwrap (options s) dat True)]"
proof -
  have l: "lookup s (ToPropertyKey key) = Wrapped dat"
    by (rule lookup_own [OF assms(2)])
  from del_own_ex [OF assms(1,2)] obtain n where
    d: "del key s =
      (emit (EvDel key (v dat))
         ((upd_stats (\<lambda>st. st\<lparr>vsize := num_sub (vsize st) (Intg n),
                              ksize := minus_assign (ksize st) (getKeyLength key),
                              keys := num_sub (keys st) (Intg 1)\<rparr>) s)
          \<lparr>data := AList.delete (ToPropertyKey key) (data s)\<rparr>),
       Inr (Number (Intg 1)))" by blast
  have st: "stale now (lookup s (ToPropertyKey key))"
    using assms(3,4) by (simp add: l)
  have c: "check now key (Wrapped dat) s =
    (emit (EvExpired key (unwrap (options s) dat True)) (fst (del key s)), Inr False)"
    using check_stale [OF assms(1) st] by (simp add: l)
  show ?thesis
    using assms(1)
    by (simp add: get_def l c d get_miss_def Let_def upd_stats_def emit_def delete_conv)
qed

text \<open>
  The scenario of the specification: \<^verbatim>\<open>set("a", "x", 1)\<close> at time 0, \<^verbatim>\<open>get("a")\<close> at
  1.5 s, with the policy off.
\<close>

theorem get_expired_entry_witness:
  "isInvalidKey (String ''a'') = None
   \<and> map_of (data (a_for_1s False)) (ToPropertyKey (String ''a''))
       = Some \<lparr>t = 1000, v = String ''x''\<rparr>
   \<and> t \<lparr>t = 1000, v = String ''x''\<rparr> \<noteq> 0 \<and> t \<lparr>t = 1000, v = String ''x''\<rparr> < 1500
   \<and> snd (get 1500 (String ''a'') False (a_for_1s False)) = Inr Undefined
   \<and> map_of (data (fst (get 1500 (String ''a'') False (a_for_1s False)))) ''a'' = None
   \<and> emitted (fst (get 1500 (String ''a'') False (a_for_1s False)))
       = [EvSet (String ''a'') (String ''x''), EvDel (String ''a'') (String ''x''),
          EvExpired (String ''a'') (String ''x'')]"
proof -
  have k: "isInvalidKey (String ''a'') = None"
    by (simp add: isInvalidKey_def validKeyTypes_def)
  have m: "map_of (data (a_for_1s False)) (ToPropertyKey (String ''a''))
             = Some \<lparr>t = 1000, v = String ''x''\<rparr>"
    by (simp add: a_for_1s_data)
  have e: "emitted (a_for_1s False) = [EvSet (String ''a'') (String ''x'')]"
    by (simp add: a_for_1s_def eval_defs)
  have u: "unwrap (options (a_for_1s False)) \<lparr>t = 1000, v = String ''x''\<rparr> True = String ''x''"
    by (simp add: unwrap_def clone_def)
  have h: "t \<lparr>t = 1000, v = String ''x''\<rparr> \<noteq> 0" "t \<lparr>t = 1000, v = String ''x''\<rparr> < 1500"
    by simp_all
  note T = get_expired_entry [OF k m h, of False]
  have 1: "snd (get 1500 (String ''a'') False (a_for_1s False)) = Inr Undefined"
    using conjunct1 [OF T] by (simp add: a_for_1s_options)
  have 2: "map_of (data (fst (get 1500 (String ''a'') False (a_for_1s False)))) ''a'' = None"
    using conjunct1 [OF conjunct2 [OF conjunct2 [OF T]]] by simp
  have 3: "emitted (fst (get 1500 (String ''a'') False (a_for_1s False)))
       = [EvSet (String ''a'') (String ''x''), EvDel (String ''a'') (String ''x''),
          EvExpired (String ''a'') (String ''x'')]"
    using conjunct2 [OF conjunct2 [OF conjunct2 [OF T]]] by (simp add: e u)
  show ?thesis using k m h 1 2 3 by simp
qed

text \<open>
  C5 as stated fails when the policy is on: the same \<open>get\<close> with the option
  \<open>errorOnMissing\<close> set does not return \<open>undefined\<close>, it throws.
\<close>

theorem get_expired_entry_counterexample:
  "map_of (data (a_for_1s True)) ''a'' = Some \<lparr>t = 1000, v = String ''x''\<rparr>
   \<and> snd (get 1500 (String ''a'') False (a_for_1s True)) = Inl (ENOTFOUND (String ''a''))
   \<and> snd (get 1500 (String ''a'') False (a_for_1s True)) \<noteq> Inr Undefined"
  by (simp add: a_for_1s_def eval_defs)

subsection \<open>C8: get of a missing key\<close>

text \<open>
  C8 at \<^verbatim>\<open>get("toString")\<close> on a new cache. Nothing is stored, so the key is absent,
  but the read \<^verbatim>\<open>this.data["toString"]\<close> finds the function every plain object
  inherits; the check takes it for fresh. \<open>get\<close> counts a hit and no miss and returns
  \<open>null\<close>, with the per-call flag off or on and with the option \<open>errorOnMissing\<close>
  set: \<open>ENOTFOUND\<close> is not thrown.
\<close>

theorem get_inherited_name:
  "isInvalidKey (String ''toString'') = None
   \<and> data (new_NodeCache default_options) = []
   \<and> snd (get 0 (String ''toString'') False (new_NodeCache default_options)) = Inr Null
   \<and> snd (get 0 (String ''toString'') True (new_NodeCache default_options)) = Inr Null
   \<and> snd (get 0 (String ''toString'') False
             (new_NodeCache (default_options\<lparr>errorOnMissing := True\<rparr>))) = Inr Null
   \<and> the_stats (fst (get 0 (String ''toString'') False (new_NodeCache default_options)))
       = \<lparr>hits = Intg 1, misses = Intg 0, keys = Intg 0, ksize = Intg 0, vsize = Intg 0\<rparr>"
  by (simp add: eval_defs)

text \<open>
  What holds of \<open>get\<close> on the code: when the read of the key finds nothing, or finds an
  entry past its expiry, \<open>get\<close> counts one miss and no hit, leaves no entry under the
  key, and throws \<open>ENOTFOUND\<close> with the key when the option or the argument of the call
  is set, and returns \<open>undefined\<close> otherwise.
\<close>

lemma get_nothing_or_stale:
  assumes "isInvalidKey key = None"
    and "lookup s (ToPropertyKey key) = Missing \<or> stale now (lookup s (ToPropertyKey key))"
  shows "\<exists>s'. get now key errorOnMissing_arg s =
           (s', if errorOnMissing (options s) \<or> errorOnMissing_arg
                then Inl (ENOTFOUND key) else Inr Undefined)
         \<and> misses (the_stats s') = num_add (misses (the_stats s)) (Intg 1)
         \<and> hits (the_stats s') = hits (the_stats s)
         \<and> map_of (data s') (ToPropertyKey key) = None"
  using assms(2)
proof
  assume m: "lookup s (ToPropertyKey key) = Missing"
  then have "map_of (data s) (ToPropertyKey key) = None" by (simp add: lookup_Missing)
  then show ?thesis using assms(1) m
    by (simp add: get_def get_miss_def Let_def upd_stats_def the_stats_def)
next
  assume st: "stale now (lookup s (ToPropertyKey key))"
  from del_present_ex [OF assms(1) stale_present [OF st]] obtain n where
    d: "del key s =
      (emit (EvDel key (slot_v (lookup s (ToPropertyKey key))))
         ((upd_stats (\<lambda>st. st\<lparr>vsize := num_sub (vsize st) (Intg n),
                              ksize := minus_assign (ksize st) (getKeyLength key),
                              keys := num_sub (keys st) (Intg 1)\<rparr>) s)
          \<lparr>data := AList.delete (ToPropertyKey key) (data s)\<rparr>),
       Inr (Number (Intg 1)))" by blast
  show ?thesis
    using assms(1) st stale_present [OF st]
    by (simp add: get_def check_stale d get_miss_def Let_def upd_stats_def the_stats_def
        emit_def delete_conv)
qed

text \<open>The scenario of the specification: \<^verbatim>\<open>get("missing")\<close> on an empty cache.\<close>

lemma get_missing_example:
  "snd (get 0 (String ''missing'') True (new_NodeCache default_options))
       = Inl (ENOTFOUND (String ''missing''))
   \<and> snd (get 0 (String ''missing'') False (new_NodeCache default_options)) = Inr Undefined
   \<and> misses (the_stats (fst (get 0 (String ''missing'') False (new_NodeCache default_options))))
       = Intg 1"
  by (simp add: eval_defs)

subsection \<open>C9: the keys 0 and ""\<close>

text \<open>
  C9. The number \<open>0\<close> and the empty string are valid keys: \<open>set\<close> stores an entry under
  them, \<open>get\<close> returns it and \<open>del\<close> removes it. For both keys, in every instance (also
  one that holds an entry under the key) and for every second argument, \<open>ttl\<close> returns
  \<open>false\<close> and \<open>getTtl\<close> returns \<open>undefined\<close>, and the instance is left as it was: the map
  is not read and no freshness check runs.
\<close>

theorem falsy_key_ttl_getTtl:
  "isInvalidKey (Number (Intg 0)) = None \<and> isInvalidKey (String []) = None
   \<and> map_of (data zero_stored) ''0'' = Some \<lparr>t = 0, v = String ''x''\<rparr>
   \<and> snd (get 5 (Number (Intg 0)) False zero_stored) = Inr (String ''x'')
   \<and> snd (del (Number (Intg 0)) zero_stored) = Inr (Number (Intg 1))
   \<and> map_of (data empty_stored) [] = Some \<lparr>t = 0, v = String ''x''\<rparr>
   \<and> snd (get 5 (String []) False empty_stored) = Inr (String ''x'')
   \<and> snd (del (String []) empty_stored) = Inr (Number (Intg 1))
   \<and> ttl now (Number (Intg 0)) ttl_arg s = (s, Inr (Bool False))
   \<and> ttl now (String []) ttl_arg s = (s, Inr (Bool False))
   \<and> getTtl now (Number (Intg 0)) s = (s, Inr Undefined)
   \<and> getTtl now (String []) s = (s, Inr Undefined)"
proof -
  have "snd (get 5 (Number (Intg 0)) False zero_stored) = Inr (String ''x'')"
    by (simp add: zero_stored_def eval_defs)
  moreover have "snd (del (Number (Intg 0)) zero_stored) = Inr (Number (Intg 1))"
    by (simp add: zero_stored_def eval_defs)
  moreover have "snd (get 5 (String []) False empty_stored) = Inr (String ''x'')"
    by (simp add: empty_stored_def eval_defs)
  moreover have "snd (del (String []) empty_stored) = Inr (Number (Intg 1))"
    by (simp add: empty_stored_def eval_defs)
  ultimately show ?thesis
    by (simp add: ttl_def getTtl_def isInvalidKey_def validKeyTypes_def zero_stored_data
        empty_stored_data)
qed

text \<open>With an entry stored under \<open>0\<close>: \<open>ttl\<close> and \<open>getTtl\<close> answer as if there were none.\<close>

theorem falsy_key_ttl_getTtl_witness:
  "map_of (data zero_stored) ''0'' = Some \<lparr>t = 0, v = String ''x''\<rparr>
   \<and> ttl 5 (Number (Intg 0)) (Some (Intg 7)) zero_stored = (zero_stored, Inr (Bool False))
   \<and> getTtl 5 (Number (Intg 0)) zero_stored = (zero_stored, Inr Undefined)"
  using falsy_key_ttl_getTtl [of 5 "Some (Intg 7)" zero_stored] by simp

subsection \<open>C10: mget with an argument that is no array\<close>

text \<open>
  C10. Called with an argument that is not an array, \<open>mget\<close> returns the \<open>EKEYSTYPE\<close>
  error object as its value, throws nothing and leaves the instance (map and
  statistics) as it was. An invalid key inside the array, after any number of valid
  ones, is thrown as \<open>EKEYTYPE\<close> with the type of the key.
\<close>

theorem mget_non_array_returns_error:
  "(\<not> isArray keys_arg \<longrightarrow> mget now keys_arg s = (s, Inr (ErrorObject EKEYSTYPE)))
   \<and> ((\<forall>k\<in>set ks. isInvalidKey k = None) \<and> isInvalidKey bad \<noteq> None \<longrightarrow>
        (\<exists>s'. mget now (Array (ks @ bad # rest)) s = (s', Inl (EKEYTYPE (typeof bad)))))"
proof (intro conjI impI)
  assume "\<not> isArray keys_arg"
  then show "mget now keys_arg s = (s, Inr (ErrorObject EKEYSTYPE))"
    by (cases keys_arg) (simp_all add: mget_def)
next
  assume a: "(\<forall>k\<in>set ks. isInvalidKey k = None) \<and> isInvalidKey bad \<noteq> None"
  then obtain s' oRet' where
    "mget_loop now (ks @ bad # rest) [] s = mget_loop now (bad # rest) oRet' s'"
    using mget_loop_valid_prefix [of ks now "bad # rest" "[]" s] by blast
  moreover have "isInvalidKey bad = Some (EKEYTYPE (typeof bad))"
    using a by (simp add: isInvalidKey_def split: if_splits)
  ultimately show "\<exists>s'. mget now (Array (ks @ bad # rest)) s = (s', Inl (EKEYTYPE (typeof bad)))"
    by (simp add: mget_def)
qed

text \<open>\<^verbatim>\<open>mget("a")\<close> returns the error object; \<^verbatim>\<open>mget(["a", null])\<close> throws.\<close>

theorem mget_non_array_returns_error_witness:
  "\<not> isArray (String ''a'')
   \<and> mget 0 (String ''a'') (new_NodeCache default_options)
       = (new_NodeCache default_options, Inr (ErrorObject EKEYSTYPE))
   \<and> isInvalidKey (String ''a'') = None \<and> isInvalidKey Null \<noteq> None
   \<and> snd (mget 0 (Array [String ''a'', Null]) (new_NodeCache default_options))
       = Inl (EKEYTYPE ''object'')"
proof -
  have h: "(\<forall>k\<in>set [String ''a'']. isInvalidKey k = None) \<and> isInvalidKey Null \<noteq> None"
    by (simp add: isInvalidKey_def validKeyTypes_def)
  have n: "\<not> isArray (String ''a'')" by simp
  show ?thesis
    using mget_non_array_returns_error
      [of "String ''a''" 0 "new_NodeCache default_options" "[String ''a'']" Null "[]"] h n
    by auto
qed

subsection \<open>C3: getStats\<close>




text \<open>
  The reference does not outlive a flush: \<open>flushAll\<close> installs a new statistics object,
  and a write through the reference obtained before no longer reaches the engine.
\<close>

lemma stale_reference_after_flush:
  assumes "stats s \<noteq> next_ref s"
  shows "getStats (flushAll s) \<noteq> getStats s
    \<and> the_stats (mutate (getStats s) st (flushAll s)) = zero_stats"
  using assms by (simp add: flushAll_def getStats_def mutate_def the_stats_def emit_def)

subsection \<open>C2: the size of a key\<close>

text \<open>
  C2 at the key \<open>1\<close>. The number \<open>1\<close> is a valid key and names the property \<open>"1"\<close>, of
  length 1, but \<^verbatim>\<open>_getKeyLength\<close> reads \<^verbatim>\<open>key.length\<close>, which a number does not have:
  the result is \<open>undefined\<close>, and \<open>set\<close> of the new key \<open>1\<close> turns \<open>ksize\<close> from 0 into
  \<open>NaN\<close> instead of 1.
\<close>

theorem set_number_key_ksize:
  "isInvalidKey (Number (Intg 1)) = None
   \<and> getKeyLength (Number (Intg 1)) = Undefined
   \<and> ToPropertyKey (Number (Intg 1)) = ''1''
   \<and> map_of (data (new_NodeCache default_options)) ''1'' = None
   \<and> ksize (the_stats (new_NodeCache default_options)) = Intg 0
   \<and> snd (set' 0 (Number (Intg 1)) (String ''x'') None (new_NodeCache default_options))
       = Inr (Bool True)
   \<and> ksize (the_stats (fst (set' 0 (Number (Intg 1)) (String ''x'') None
                               (new_NodeCache default_options)))) = NaN"
  by (simp add: eval_defs)

subsection \<open>C1: the statistics and the map\<close>

text \<open>
  C1 at \<^verbatim>\<open>set(1, "x")\<close> followed by \<^verbatim>\<open>del(1)\<close> on a new cache. After the \<open>set\<close> the
  map holds one entry under \<open>"1"\<close>, and \<open>keys\<close> and \<open>vsize\<close> are 1, but \<open>ksize\<close> is
  \<open>NaN\<close>; after the \<open>del\<close> the map is empty, \<open>keys\<close> and \<open>vsize\<close> are 0, and \<open>ksize\<close>
  is still \<open>NaN\<close>, not the sum 0 over no entries.
\<close>

theorem stats_after_number_key:
  "data one_stored = [(''1'', \<lparr>t = 0, v = String ''x''\<rparr>)]
   \<and> the_stats one_stored
       = \<lparr>hits = Intg 0, misses = Intg 0, keys = Intg 1, ksize = NaN, vsize = Intg 1\<rparr>
   \<and> data (fst (del (Number (Intg 1)) one_stored)) = []
   \<and> the_stats (fst (del (Number (Intg 1)) one_stored))
       = \<lparr>hits = Intg 0, misses = Intg 0, keys = Intg 0, ksize = NaN, vsize = Intg 0\<rparr>"
  by (simp add: one_stored_def eval_defs)

subsection \<open>C4: ttl with a new time to live\<close>

text \<open>
  C4 at \<^verbatim>\<open>ttl("a", 0)\<close> on a cache whose default TTL is 10 s. By the rules of
  \<open>wrap\<close>, the TTL 0 gives the expiry 0 (never). But \<^verbatim>\<open>if (!ttl)\<close> in \<open>ttl\<close> takes
  the argument 0 for a missing one and replaces it by the default: the entry, fresh at
  time 2000, is rewrapped to expire at 12000, and \<open>ttl\<close> returns \<open>true\<close>.
\<close>

theorem ttl_zero_uses_default:
  "stdTTL (options a_std10) = 10
   \<and> data a_std10 = [(''a'', \<lparr>t = 11000, v = String ''x''\<rparr>)]
   \<and> wrap 2000 (options a_std10) (String ''x'') (Some (Intg 0)) False
       = \<lparr>t = 0, v = String ''x''\<rparr>
   \<and> snd (ttl 2000 (String ''a'') (Some (Intg 0)) a_std10) = Inr (Bool True)
   \<and> data (fst (ttl 2000 (String ''a'') (Some (Intg 0)) a_std10))
       = [(''a'', \<lparr>t = 12000, v = String ''x''\<rparr>)]"
  by (simp add: a_std10_def eval_defs)

subsection \<open>C7: ttl with a negative time to live, and del\<close>

text \<open>
  C7 as stated fails in two ways. Under the valid key \<open>0\<close>, \<^verbatim>\<open>ttl(0, -1)\<close> returns
  \<open>false\<close> and keeps the entry that \<^verbatim>\<open>del(0)\<close> removes. And for an entry that is
  stored but expired, \<^verbatim>\<open>ttl("a", -1)\<close> returns \<open>false\<close> where \<^verbatim>\<open>del("a")\<close> returns
  the count 1.
\<close>

theorem ttl_negative_vs_del_counterexample:
  "isInvalidKey (Number (Intg 0)) = None
   \<and> data zero_stored = [(''0'', \<lparr>t = 0, v = String ''x''\<rparr>)]
   \<and> ttl 5 (Number (Intg 0)) (Some (Intg (- 1))) zero_stored = (zero_stored, Inr (Bool False))
   \<and> data (fst (del (Number (Intg 0)) zero_stored)) = []
   \<and> snd (del (Number (Intg 0)) zero_stored) = Inr (Number (Intg 1))
   \<and> data (a_for_1s False) = [(''a'', \<lparr>t = 1000, v = String ''x''\<rparr>)]
   \<and> snd (ttl 1500 (String ''a'') (Some (Intg (- 1))) (a_for_1s False)) = Inr (Bool False)
   \<and> snd (del (String ''a'') (a_for_1s False)) = Inr (Number (Intg 1))"
proof -
  have "snd (ttl 1500 (String ''a'') (Some (Intg (- 1))) (a_for_1s False)) = Inr (Bool False)"
    by (simp add: a_for_1s_def eval_defs)
  moreover have "snd (del (String ''a'') (a_for_1s False)) = Inr (Number (Intg 1))"
    by (simp add: a_for_1s_def eval_defs)
  moreover have "data (fst (del (Number (Intg 0)) zero_stored)) = []"
    "snd (del (Number (Intg 0)) zero_stored) = Inr (Number (Intg 1))"
    by (simp_all add: zero_stored_def eval_defs)
  ultimately show ?thesis
    by (simp add: zero_stored_data a_for_1s_data ttl_def isInvalidKey_def validKeyTypes_def)
qed

text \<open>
  C7, as the code has it. Take a valid key that is not \<open>0\<close>, \<open>NaN\<close> or the empty
  string, and that is stored or is none of the names a plain object inherits. Then
  \<^verbatim>\<open>ttl(key, -1)\<close> and \<^verbatim>\<open>del(key)\<close> leave the same map. If the key is present and
  fresh, they leave the same instance, \<open>ttl\<close> returns \<open>true\<close> and \<open>del\<close> the count 1,
  and the entry is gone. If the key is absent, the map is unchanged, \<open>ttl\<close> returns
  \<open>false\<close> and \<open>del\<close> the count 0. If the key is present but expired, both remove the
  entry, \<open>ttl\<close> returns \<open>false\<close> and \<open>del\<close> the count 1.
\<close>

theorem ttl_negative_vs_del:
  assumes "isInvalidKey key = None" and "truthy key"
    and "lookup s (ToPropertyKey key) \<noteq> Builtin"
  shows "data (fst (ttl now key (Some (Intg (- 1))) s)) = data (fst (del key s))
    \<and> (fresh_in now s key \<longrightarrow>
         ttl now key (Some (Intg (- 1))) s = (fst (del key s), Inr (Bool True))
         \<and> snd (del key s) = Inr (Number (Intg 1))
         \<and> map_of (data (fst (del key s))) (ToPropertyKey key) = None)
    \<and> (map_of (data s) (ToPropertyKey key) = None \<longrightarrow>
         ttl now key (Some (Intg (- 1))) s = (s, Inr (Bool False))
         \<and> snd (del key s) = Inr (Number (Intg 0))
         \<and> data (fst (del key s)) = data s)
    \<and> (map_of (data s) (ToPropertyKey key) \<noteq> None \<and> \<not> fresh_in now s key \<longrightarrow>
         snd (ttl now key (Some (Intg (- 1))) s) = Inr (Bool False)
         \<and> snd (del key s) = Inr (Number (Intg 1))
         \<and> map_of (data (fst (del key s))) (ToPropertyKey key) = None)"
proof (cases "map_of (data s) (ToPropertyKey key)")
  case None
  with assms(3) have m: "lookup s (ToPropertyKey key) = Missing"
    by (simp add: lookup_def split: if_splits)
  show ?thesis using assms(1,2) None m
    by (simp add: ttl_def del_absent [OF assms(1) m] fresh_in_def)
next
  case (Some dat)
  have l: "lookup s (ToPropertyKey key) = Wrapped dat" by (rule lookup_own [OF Some])
  from del_own_ex [OF assms(1) Some] obtain s1 where
    d: "del key s = (s1, Inr (Number (Intg 1)))"
    and d1: "data s1 = AList.delete (ToPropertyKey key) (data s)"
    by (auto simp: emit_def upd_stats_def)
  have p: "present (lookup s (ToPropertyKey key))" by (simp add: l)
  note c = check_expire [OF assms(1) p, of now]
  show ?thesis
  proof (cases "fresh_in now s key")
    case True
    then show ?thesis using assms(1,2) Some p c d d1
      by (simp add: ttl_def expire_fresh delete_conv)
  next
    case False
    then have "stale now (lookup s (ToPropertyKey key))" using p by (simp add: fresh_in_def)
    then have e: "expire now key s
      = emit (EvExpired key (unwrap_slot (options s) (lookup s (ToPropertyKey key)) True))
          (fst (del key s))"
      by (simp add: expire_def)
    show ?thesis using assms(1,2) Some p c d d1 False
      by (simp add: ttl_def e delete_conv)
  qed
qed

text \<open>The key \<open>"a"\<close>, stored until 1000, at time 500.\<close>

theorem ttl_negative_vs_del_witness:
  "isInvalidKey (String ''a'') = None \<and> truthy (String ''a'')
   \<and> lookup (a_for_1s False) (ToPropertyKey (String ''a'')) \<noteq> Builtin
   \<and> fresh_in 500 (a_for_1s False) (String ''a'')
   \<and> ttl 500 (String ''a'') (Some (Intg (- 1))) (a_for_1s False)
       = (fst (del (String ''a'') (a_for_1s False)), Inr (Bool True))
   \<and> snd (del (String ''a'') (a_for_1s False)) = Inr (Number (Intg 1))
   \<and> data (fst (ttl 500 (String ''a'') (Some (Intg (- 1))) (a_for_1s False))) = []"
proof -
  have k: "isInvalidKey (String ''a'') = None"
    by (simp add: isInvalidKey_def validKeyTypes_def)
  have tr: "truthy (String ''a'')" by simp
  have nb: "lookup (a_for_1s False) (ToPropertyKey (String ''a'')) \<noteq> Builtin"
    by (simp add: lookup_def a_for_1s_data)
  have f: "fresh_in 500 (a_for_1s False) (String ''a'')"
    by (simp add: fresh_in_def lookup_def a_for_1s_data)
  have d: "data (fst (del (String ''a'') (a_for_1s False))) = []"
    by (simp add: a_for_1s_def eval_defs)
  note T = ttl_negative_vs_del [OF k tr nb, of 500]
  have 1: "data (fst (ttl 500 (String ''a'') (Some (Intg (- 1))) (a_for_1s False))) = []"
    using conjunct1 [OF T] d by simp
  have 2: "ttl 500 (String ''a'') (Some (Intg (- 1))) (a_for_1s False)
             = (fst (del (String ''a'') (a_for_1s False)), Inr (Bool True))
           \<and> snd (del (String ''a'') (a_for_1s False)) = Inr (Number (Intg 1))"
    using conjunct1 [OF conjunct2 [OF T]] f by blast
  show ?thesis using k tr nb f 1 2 by blast
qed

subsection \<open>C6: mget\<close>

text \<open>
  C6 at \<^verbatim>\<open>mget(["toString"])\<close> on a new cache. Nothing is stored, so the key is
  absent, but the read \<^verbatim>\<open>this.data["toString"]\<close> finds the inherited function and the
  check takes it for fresh: \<open>mget\<close> counts a hit and no miss, and the returned object
  holds the key, with the value \<open>null\<close>.
\<close>

theorem mget_inherited_name:
  "isInvalidKey (String ''toString'') = None
   \<and> data (new_NodeCache default_options) = []
   \<and> snd (mget 0 (Array [String ''toString'']) (new_NodeCache default_options))
       = Inr (Value (Object [(''toString'', Null)]))
   \<and> the_stats (fst (mget 0 (Array [String ''toString'']) (new_NodeCache default_options)))
       = \<lparr>hits = Intg 1, misses = Intg 0, keys = Intg 0, ksize = Intg 0, vsize = Intg 0\<rparr>"
  by (simp add: eval_defs)

text \<open>
  What holds of \<open>mget\<close> on the code, for an array of valid keys none of which is a name
  a plain object inherits: \<open>mget\<close> returns an object and throws nothing, whatever the
  option \<open>errorOnMissing\<close> is; \<open>hits\<close> grows by the number of keys of the array that are
  present and fresh, \<open>misses\<close> by the number of those that are absent or expired (a key
  is counted as often as it occurs); the object returned has exactly the property names
  of the present and fresh keys, each with the unwrapped value of its entry.
\<close>

lemma mget_plain_keys:
  assumes "\<forall>k\<in>set ks. isInvalidKey k = None \<and> ToPropertyKey k \<notin> set Object_prototype_names"
  shows "\<exists>s' oRet. mget now (Array ks) s = (s', Inr (Value (Object oRet)))
    \<and> hits (the_stats s')
        = num_add (hits (the_stats s)) (Intg (int (length (filter (fresh_in now s) ks))))
    \<and> misses (the_stats s')
        = num_add (misses (the_stats s))
            (Intg (int (length (filter (\<lambda>k. \<not> fresh_in now s k) ks))))
    \<and> (\<forall>name. map_of oRet name =
          (if \<exists>k\<in>set ks. ToPropertyKey k = name \<and> fresh_in now s k
           then Some (unwrap_slot (options s) (lookup s name) True)
           else None))"
proof -
  have e: "mget now (Array ks) s = mget_loop now ks [] s"
    by (simp add: mget_def)
  show ?thesis
    unfolding e using mget_loop_result [OF assms, of now "[]" s]
    unfolding map_of.simps(1) .
qed

text \<open>
  The scenario of the specification, with the policy on: \<^verbatim>\<open>mget(["a", "b"])\<close> where
  only \<open>"a"\<close> is stored.
\<close>

lemma mget_example:
  "errorOnMissing (options (a_for_1s True))
   \<and> snd (mget 500 (Array [String ''a'', String ''b'']) (a_for_1s True))
       = Inr (Value (Object [(''a'', String ''x'')]))
   \<and> hits (the_stats (fst (mget 500 (Array [String ''a'', String ''b'']) (a_for_1s True))))
       = Intg 1
   \<and> misses (the_stats (fst (mget 500 (Array [String ''a'', String ''b'']) (a_for_1s True))))
       = Intg 1"
  by (simp add: a_for_1s_def eval_defs)

section \<open>The statistics invariant for plain string keys\<close>

text \<open>
  What remains of C1 when no number and no name that a plain object inherits is used as
  a key, and no \<open>set\<close> throws a \<open>TypeError\<close>: every public operation preserves the
  invariant \<open>stats_inv\<close>.
\<close>

lemma sum_delete:
  "distinct (map fst xs) \<Longrightarrow> map_of xs k = Some e \<Longrightarrow>
   sum_list (map f xs) = (f (k, e) :: int) + sum_list (map f (AList.delete k xs))
   \<and> length xs = Suc (length (AList.delete k xs))"
proof (induction xs)
  case Nil
  then show ?case by simp
next
  case (Cons p xs)
  obtain k' e' where p: "p = (k', e')" by (cases p)
  show ?case
  proof (cases "k' = k")
    case True
    with Cons.prems p have "e' = e" "k \<notin> fst ` set xs" by auto
    then show ?thesis using True p by simp
  next
    case False
    with Cons p show ?thesis by (simp add: delete_simps)
  qed
qed

lemma sum_update_new:
  "map_of xs k = None \<Longrightarrow>
   sum_list (map f (AList.update k e xs)) = sum_list (map f xs) + (f (k, e) :: int)
   \<and> length (AList.update k e xs) = Suc (length xs)"
  by (induction xs) (auto split: if_splits)

lemma sum_update_old:
  "distinct (map fst xs) \<Longrightarrow> map_of xs k = Some e0 \<Longrightarrow>
   sum_list (map f (AList.update k e xs)) + f (k, e0) = sum_list (map f xs) + (f (k, e) :: int)
   \<and> length (AList.update k e xs) = length xs"
proof (induction xs)
  case Nil
  then show ?case by simp
next
  case (Cons p xs)
  obtain k' e' where p: "p = (k', e')" by (cases p)
  show ?case
  proof (cases "k' = k")
    case True
    with Cons.prems p show ?thesis by simp
  next
    case False
    with Cons p show ?thesis by simp
  qed
qed


lemma plain_key_cases:
  "plain_key key \<Longrightarrow>
   isInvalidKey key \<noteq> None \<or> (\<exists>k. key = String k \<and> k \<notin> set Object_prototype_names)"
  by (cases key) (simp_all add: isInvalidKey_def validKeyTypes_def)

lemma lookup_plain_None:
  "k \<notin> set Object_prototype_names \<Longrightarrow> map_of (data s) k = None \<Longrightarrow> lookup s k = Missing"
  by (simp add: lookup_def)

lemma assign_plain:
  "k \<notin> set Object_prototype_names \<Longrightarrow>
   assign k dat s = Some (s\<lparr>data := AList.update k dat (data s)\<rparr>)"
  by (auto simp: assign_def Object_prototype_names_def)

lemma assign_own:
  "map_of (data s) k \<noteq> None \<Longrightarrow>
   assign k dat s = Some (s\<lparr>data := AList.update k dat (data s)\<rparr>)"
  by (simp add: assign_def)

lemma String_key [simp]: "isInvalidKey (String k) = None"
  by (simp add: isInvalidKey_def validKeyTypes_def)

lemma valSize_eq:
  "getValLength opts (unwrap opts dat False) = Inr (Intg (valSize opts dat))"
  using getValLength_unwrap [of opts dat False] by (auto simp: valSize_def)

lemma getValLength_ok:
  "\<not> (forceString opts \<and> x = Undefined) \<Longrightarrow> \<exists>n. getValLength opts x = Inr (Intg n)"
proof (cases "x = Undefined")
  case True
  moreover assume "\<not> (forceString opts \<and> x = Undefined)"
  ultimately show ?thesis by (simp add: getValLength_def)
next
  case False
  then show ?thesis by (rule getValLength_total)
qed

lemma valSize_wrap:
  assumes "getValLength opts val = Inr (Intg n)"
  shows "valSize opts (wrap now opts val ttl_arg b) = n"
proof (cases "not_nullish val")
  case True
  then have "unwrap opts (wrap now opts val ttl_arg b) False = val"
    by (simp add: unwrap_def wrap_def clone_def Let_def)
  then show ?thesis using assms by (simp add: valSize_def)
next
  case False
  then have u: "unwrap opts (wrap now opts val ttl_arg b) False = Null"
    by (simp add: unwrap_def wrap_def clone_def Let_def)
  from False have "val = Undefined \<or> val = Null" by (cases val) simp_all
  then have "getValLength opts Null = Inr (Intg n)"
    using assms by (auto simp: getValLength_def split: if_splits)
  then show ?thesis using u by (simp add: valSize_def)
qed

lemma valSize_same_v: "v d1 = v d2 \<Longrightarrow> valSize opts d1 = valSize opts d2"
  by (simp add: valSize_def unwrap_def)

lemma stats_inv_upd:
  assumes "keys (f (the_stats s)) = keys (the_stats s)"
    and "ksize (f (the_stats s)) = ksize (the_stats s)"
    and "vsize (f (the_stats s)) = vsize (the_stats s)"
  shows "stats_inv (upd_stats f s) = stats_inv s"
  using assms by (simp add: stats_inv_def upd_stats_def the_stats_def)

lemma stats_inv_emit: "stats_inv (emit ev s) = stats_inv s"
  by (simp add: stats_inv_def emit_def the_stats_def)

lemma stats_inv_remove:
  assumes "stats_inv s" and "map_of (data s) k = Some dat"
  shows "stats_inv
    ((upd_stats (\<lambda>st. st\<lparr>vsize := num_sub (vsize st) (Intg (valSize (options s) dat)),
                         ksize := minus_assign (ksize st) (getKeyLength (String k)),
                         keys := num_sub (keys st) (Intg 1)\<rparr>) s)
     \<lparr>data := AList.delete k (data s)\<rparr>)"
proof -
  from assms(1) have d: "distinct (map fst (data s))" by (simp add: stats_inv_def)
  note 1 = sum_delete [OF d assms(2), of "\<lambda>p. int (length (fst p))"]
  note 2 = sum_delete [OF d assms(2), of "\<lambda>p. valSize (options s) (snd p)"]
  show ?thesis
    using assms(1) 1 2 d
    by (simp add: stats_inv_def upd_stats_def the_stats_def distinct_delete)
qed

lemma stats_inv_del_loop:
  "stats_inv s \<Longrightarrow> \<forall>k\<in>set ks. plain_key k \<Longrightarrow>
   stats_inv (fst (del_loop ks n s)) \<and> options (fst (del_loop ks n s)) = options s"
proof (induction ks arbitrary: s n)
  case Nil
  then show ?case by simp
next
  case (Cons key ks)
  then have nn: "plain_key key" and rest: "\<forall>k\<in>set ks. plain_key k" by simp_all
  from plain_key_cases [OF nn] show ?case
  proof
    assume "isInvalidKey key \<noteq> None"
    then show ?thesis using Cons.prems(1) by auto
  next
    assume "\<exists>k. key = String k \<and> k \<notin> set Object_prototype_names"
    then obtain k where key: "key = String k" and pk: "k \<notin> set Object_prototype_names"
      by blast
    show ?thesis
    proof (cases "map_of (data s) k")
      case None
      note l = lookup_plain_None [OF pk None]
      define s1 where "s1 = upd_stats (\<lambda>st. st\<lparr>misses := num_add (misses st) (Intg 1)\<rparr>) s"
      have "stats_inv s1" using Cons.prems(1) by (simp add: s1_def stats_inv_upd)
      moreover have "options s1 = options s" by (simp add: s1_def upd_stats_def)
      moreover have "del_loop (key # ks) n s = del_loop ks n s1"
        using None key l by (simp add: s1_def)
      ultimately show ?thesis using Cons.IH [OF _ rest, of s1 n] by simp
    next
      case (Some dat)
      note l = lookup_own [OF Some]
      define s1 where "s1 = emit (EvDel key (v dat))
         ((upd_stats (\<lambda>st. st\<lparr>vsize := num_sub (vsize st) (Intg (valSize (options s) dat)),
                         ksize := minus_assign (ksize st) (getKeyLength (String k)),
                         keys := num_sub (keys st) (Intg 1)\<rparr>) s)
          \<lparr>data := AList.delete k (data s)\<rparr>)"
      have "stats_inv s1"
        unfolding s1_def stats_inv_emit by (rule stats_inv_remove [OF Cons.prems(1) Some])
      moreover have "options s1 = options s" by (simp add: s1_def upd_stats_def emit_def)
      moreover have "del_loop (key # ks) n s = del_loop ks (n + 1) s1"
        using Some key l by (simp add: s1_def valSize_eq)
      ultimately show ?thesis using Cons.IH [OF _ rest, of s1 "n + 1"] by simp
    qed
  qed
qed

lemma stats_inv_del:
  assumes "stats_inv s" and "\<forall>k\<in>set (case keys_arg of Array ks \<Rightarrow> ks | _ \<Rightarrow> [keys_arg]). plain_key k"
  shows "stats_inv (fst (del keys_arg s)) \<and> options (fst (del keys_arg s)) = options s"
  unfolding del_def using stats_inv_del_loop [OF assms] .

lemma stats_inv_expire:
  assumes "stats_inv s" and "k \<notin> set Object_prototype_names"
  shows "stats_inv (expire now (String k) s) \<and> options (expire now (String k) s) = options s"
proof -
  have "stats_inv (fst (del (String k) s)) \<and> options (fst (del (String k) s)) = options s"
    using stats_inv_del [OF assms(1), of "String k"] assms(2) by simp
  then show ?thesis using assms(1)
    by (auto simp: expire_def stats_inv_emit)
qed


lemma stats_inv_hit:
  "stats_inv (upd_stats (\<lambda>st. st\<lparr>hits := num_add (hits st) (Intg 1)\<rparr>) s) = stats_inv s"
  by (simp add: stats_inv_upd)

lemma stats_inv_miss:
  "stats_inv (upd_stats (\<lambda>st. st\<lparr>misses := num_add (misses st) (Intg 1)\<rparr>) s) = stats_inv s"
  by (simp add: stats_inv_upd)

lemma stats_inv_get_miss:
  "stats_inv s \<Longrightarrow>
   stats_inv (fst (get_miss key eom s)) \<and> options (fst (get_miss key eom s)) = options s"
  by (simp add: get_miss_def Let_def stats_inv_miss)

lemma stats_inv_get:
  assumes "stats_inv s" and "plain_key key"
  shows "stats_inv (fst (get now key eom s)) \<and> options (fst (get now key eom s)) = options s"
  using plain_key_cases [OF assms(2)]
proof
  assume "isInvalidKey key \<noteq> None"
  then show ?thesis using assms(1) by (auto simp: get_def)
next
  assume "\<exists>k. key = String k \<and> k \<notin> set Object_prototype_names"
  then obtain k where key: "key = String k" and pk: "k \<notin> set Object_prototype_names"
    by blast
  show ?thesis
  proof (cases "map_of (data s) k")
    case None
    note l = lookup_plain_None [OF pk None]
    then show ?thesis using stats_inv_get_miss [OF assms(1)] key l by (simp add: get_def)
  next
    case (Some dat)
    note l = lookup_own [OF Some]
    have c: "check now key (Wrapped dat) s = (expire now key s, Inr (fresh_in now s key))"
      using check_expire [of key s now] l key by simp
    show ?thesis
    proof (cases "fresh_in now s key")
      case True
      then show ?thesis using assms(1) Some key c l
        by (simp add: get_def expire_fresh stats_inv_hit)
    next
      case False
      then show ?thesis
        using stats_inv_expire [OF assms(1) pk, where now = now] Some key c l
        by (simp add: get_def stats_inv_get_miss)
    qed
  qed
qed

lemma stats_inv_getTtl:
  assumes "stats_inv s" and "plain_key key"
  shows "stats_inv (fst (getTtl now key s)) \<and> options (fst (getTtl now key s)) = options s"
  using plain_key_cases [OF assms(2)]
proof
  assume "isInvalidKey key \<noteq> None"
  then show ?thesis using assms(1) by (auto simp: getTtl_def)
next
  assume "\<exists>k. key = String k \<and> k \<notin> set Object_prototype_names"
  then obtain k where key: "key = String k" and pk: "k \<notin> set Object_prototype_names"
    by blast
  show ?thesis
  proof (cases "map_of (data s) k")
    case None
    note l = lookup_plain_None [OF pk None]
    then show ?thesis using assms(1) key l by (simp add: getTtl_def)
  next
    case (Some dat)
    note l = lookup_own [OF Some]
    have c: "check now key (Wrapped dat) s = (expire now key s, Inr (fresh_in now s key))"
      using check_expire [of key s now] l key by simp
    show ?thesis
    proof (cases "fresh_in now s key")
      case True
      then show ?thesis using assms(1) Some key c l
        by (simp add: getTtl_def expire_fresh)
    next
      case False
      then show ?thesis
        using stats_inv_expire [OF assms(1) pk, where now = now] Some key c l assms(1)
        by (simp add: getTtl_def)
    qed
  qed
qed

lemma stats_inv_mget_loop:
  "stats_inv s \<Longrightarrow> \<forall>k\<in>set ks. plain_key k \<Longrightarrow>
   stats_inv (fst (mget_loop now ks oRet s)) \<and> options (fst (mget_loop now ks oRet s)) = options s"
proof (induction ks arbitrary: s oRet)
  case Nil
  then show ?case by simp
next
  case (Cons key ks)
  then have nn: "plain_key key" and rest: "\<forall>k\<in>set ks. plain_key k" by simp_all
  from plain_key_cases [OF nn] show ?case
  proof
    assume "isInvalidKey key \<noteq> None"
    then show ?thesis using Cons.prems(1) by auto
  next
    assume "\<exists>k. key = String k \<and> k \<notin> set Object_prototype_names"
    then obtain k where key: "key = String k" and pk: "k \<notin> set Object_prototype_names"
      by blast
    have v: "isInvalidKey key = None" by (simp add: key)
    show ?thesis
    proof (cases "fresh_in now s key")
      case True
      define s1 where "s1 = upd_stats (\<lambda>st. st\<lparr>hits := num_add (hits st) (Intg 1)\<rparr>) s"
      have "stats_inv s1" "options s1 = options s"
        using Cons.prems(1) by (simp_all add: s1_def stats_inv_hit)
      then show ?thesis
        unfolding mget_loop_step [OF v] using True Cons.IH [OF _ rest, of s1]
        by (simp add: s1_def)
    next
      case False
      define s1 where "s1 = upd_stats (\<lambda>st. st\<lparr>misses := num_add (misses st) (Intg 1)\<rparr>)
                              (expire now key s)"
      have "stats_inv s1" "options s1 = options s"
        using stats_inv_expire [OF Cons.prems(1) pk, where now = now]
        by (simp_all add: s1_def stats_inv_miss key)
      then show ?thesis
        unfolding mget_loop_step [OF v] using False Cons.IH [OF _ rest, of s1]
        by (simp add: s1_def)
    qed
  qed
qed

lemma stats_inv_mget:
  assumes "stats_inv s" and "\<forall>k\<in>set (case keys_arg of Array ks \<Rightarrow> ks | _ \<Rightarrow> []). plain_key k"
  shows "stats_inv (fst (mget now keys_arg s)) \<and> options (fst (mget now keys_arg s)) = options s"
proof (cases keys_arg)
  case (Array ks)
  then show ?thesis using stats_inv_mget_loop [OF assms(1), of ks now "[]"] assms(2)
    by (simp add: mget_def)
qed (use assms(1) in \<open>simp_all add: mget_def\<close>)

lemma stats_inv_flushAll:
  "stats_inv (flushAll s) \<and> options (flushAll s) = options s"
  by (simp add: flushAll_def stats_inv_def emit_def the_stats_def zero_stats_def)

lemma stats_inv_new: "stats_inv (new_NodeCache opts)"
  by (simp add: new_NodeCache_def stats_inv_def the_stats_def zero_stats_def)


lemma stats_inv_insert:
  assumes "stats_inv s" and "map_of (data s) k = None"
  shows "stats_inv
    (upd_stats (\<lambda>st. st\<lparr>keys := num_add (keys st) (Intg 1)\<rparr>)
       (upd_stats (\<lambda>st. st\<lparr>ksize := plus_assign (ksize st) (getKeyLength (String k))\<rparr>)
          (upd_stats (\<lambda>st. st\<lparr>vsize := num_add (vsize st) (Intg (valSize (options s) dat))\<rparr>)
             (s\<lparr>data := AList.update k dat (data s)\<rparr>))))"
proof -
  from assms(1) have d: "distinct (map fst (data s))" by (simp add: stats_inv_def)
  note 1 = sum_update_new [OF assms(2), of "\<lambda>p. int (length (fst p))" dat]
  note 2 = sum_update_new [OF assms(2), of "\<lambda>p. valSize (options s) (snd p)" dat]
  show ?thesis
    using assms(1) 1 2 d
    by (simp add: stats_inv_def upd_stats_def the_stats_def distinct_update)
qed

lemma stats_inv_overwrite:
  assumes "stats_inv s" and "map_of (data s) k = Some old"
  shows "stats_inv
    (upd_stats (\<lambda>st. st\<lparr>vsize := num_add (vsize st) (Intg (valSize (options s) dat))\<rparr>)
       ((upd_stats (\<lambda>st. st\<lparr>vsize := num_sub (vsize st) (Intg (valSize (options s) old))\<rparr>) s)
        \<lparr>data := AList.update k dat (data s)\<rparr>))"
proof -
  from assms(1) have d: "distinct (map fst (data s))" by (simp add: stats_inv_def)
  note 1 = sum_update_old [OF d assms(2), of "\<lambda>p. int (length (fst p))" dat]
  note 2 = sum_update_old [OF d assms(2), of "\<lambda>p. valSize (options s) (snd p)" dat]
  show ?thesis
    using assms(1) 1 2 d
    by (simp add: stats_inv_def upd_stats_def the_stats_def distinct_update)
qed

lemma stats_inv_rewrap:
  assumes "stats_inv s" and "map_of (data s) k = Some old" and "v dat = v old"
  shows "stats_inv (s\<lparr>data := AList.update k dat (data s)\<rparr>)"
proof -
  from assms(1) have d: "distinct (map fst (data s))" by (simp add: stats_inv_def)
  note 1 = sum_update_old [OF d assms(2), of "\<lambda>p. int (length (fst p))" dat]
  note 2 = sum_update_old [OF d assms(2), of "\<lambda>p. valSize (options s) (snd p)" dat]
  have "valSize (options s) dat = valSize (options s) old"
    by (rule valSize_same_v [OF assms(3)])
  then show ?thesis
    using assms(1) 1 2 d
    by (simp add: stats_inv_def the_stats_def distinct_update)
qed

lemma stats_inv_set:
  assumes "stats_inv s" and "plain_key key"
    and "\<not> (forceString (options s) \<and> value0 = Undefined)"
  shows "stats_inv (fst (set' now key value0 ttl_arg s))
         \<and> options (fst (set' now key value0 ttl_arg s)) = options s"
  using plain_key_cases [OF assms(2)]
proof
  assume "isInvalidKey key \<noteq> None"
  then show ?thesis using assms(1) by (auto simp: set'_def Let_def)
next
  assume "\<exists>k. key = String k \<and> k \<notin> set Object_prototype_names"
  then obtain k where key: "key = String k" and pk: "k \<notin> set Object_prototype_names"
    by blast
  define val where "val = (if forceString (options s) \<and> \<not> isString value0
                 then (case JSON_stringify value0 of None \<Rightarrow> Undefined | Some str \<Rightarrow> String str)
                 else value0)"
  have "\<not> (forceString (options s) \<and> val = Undefined)"
    using assms(3) by (auto simp: val_def JSON_stringify_None split: option.splits)
  then obtain n where n: "getValLength (options s) val = Inr (Intg n)"
    using getValLength_ok by blast
  define dat where "dat = wrap now (options s) val ttl_arg True"
  have vs: "valSize (options s) dat = n"
    unfolding dat_def by (rule valSize_wrap [OF n])
  show ?thesis
  proof (cases "map_of (data s) k")
    case None
    note l = lookup_plain_None [OF pk None]
    have "set' now key value0 ttl_arg s =
      (emit (EvSet key val)
         (upd_stats (\<lambda>st. st\<lparr>keys := num_add (keys st) (Intg 1)\<rparr>)
           (upd_stats (\<lambda>st. st\<lparr>ksize := plus_assign (ksize st) (getKeyLength (String k))\<rparr>)
             (upd_stats (\<lambda>st. st\<lparr>vsize := num_add (vsize st) (Intg (valSize (options s) dat))\<rparr>)
               (s\<lparr>data := AList.update k dat (data s)\<rparr>)))),
       Inr (Bool True))"
      using None n l
      by (simp add: set'_def key Let_def val_def [symmetric] dat_def [symmetric] vs
          assign_plain [OF pk])
    then show ?thesis
      using stats_inv_insert [OF assms(1) None, of dat]
      by (simp add: stats_inv_emit)
  next
    case (Some old)
    note l = lookup_own [OF Some]
    have "set' now key value0 ttl_arg s =
      (emit (EvSet key val)
        (upd_stats (\<lambda>st. st\<lparr>vsize := num_add (vsize st) (Intg (valSize (options s) dat))\<rparr>)
          ((upd_stats (\<lambda>st. st\<lparr>vsize := num_sub (vsize st) (Intg (valSize (options s) old))\<rparr>) s)
           \<lparr>data := AList.update k dat (data s)\<rparr>)),
       Inr (Bool True))"
      using Some n l
      by (simp add: set'_def key Let_def val_def [symmetric] dat_def [symmetric] vs valSize_eq
          assign_own)
    then show ?thesis
      using stats_inv_overwrite [OF assms(1) Some, of dat]
      by (simp add: stats_inv_emit)
  qed
qed

lemma stats_inv_ttl:
  assumes "stats_inv s" and "plain_key key"
  shows "stats_inv (fst (ttl now key ttl_arg s)) \<and> options (fst (ttl now key ttl_arg s)) = options s"
  using plain_key_cases [OF assms(2)]
proof
  assume "isInvalidKey key \<noteq> None"
  then show ?thesis using assms(1) by (auto simp: ttl_def Let_def)
next
  assume "\<exists>k. key = String k \<and> k \<notin> set Object_prototype_names"
  then obtain k where key: "key = String k" and pk: "k \<notin> set Object_prototype_names"
    by blast
  show ?thesis
  proof (cases "map_of (data s) k")
    case None
    note l = lookup_plain_None [OF pk None]
    then show ?thesis using assms(1) key l by (simp add: ttl_def Let_def)
  next
    case (Some dat)
    note l = lookup_own [OF Some]
    have c: "check now key (Wrapped dat) s = (expire now key s, Inr (fresh_in now s key))"
      using check_expire [of key s now] l key by simp
    show ?thesis
    proof (cases "fresh_in now s key")
      case True
      obtain s1 where d1: "del (String k) s = (s1, Inr (Number (Intg 1)))"
        using del_own_ex [of "String k" s dat] Some by auto
      have d: "stats_inv s1 \<and> options s1 = options s"
        using stats_inv_del [OF assms(1), of "String k"] d1 pk by simp
      have r: "stats_inv (s\<lparr>data := AList.update k
                 (wrap now (options s) (v dat) (Some (Intg n)) False) (data s)\<rparr>)" for n
        by (rule stats_inv_rewrap [OF assms(1) Some]) (simp add: wrap_def Let_def)
      show ?thesis using True assms(1) Some key c l d d1 r
        by (simp add: ttl_def Let_def expire_fresh assign_own)
    next
      case False
      then show ?thesis
        using stats_inv_expire [OF assms(1) pk, where now = now] Some key c l assms(1)
        by (simp add: ttl_def Let_def)
    qed
  qed
qed

lemma stats_inv_step:
  assumes "stats_inv s" and "ok_op (options s) c"
  shows "stats_inv (apply_op now c s) \<and> options (apply_op now c s) = options s"
proof (cases c)
  case (Set key val ttl_arg)
  then show ?thesis using assms stats_inv_set [of s key val now ttl_arg]
    by (simp add: ok_op_def)
next
  case (Get key eom)
  then show ?thesis using assms stats_inv_get [of s key now eom] by (simp add: ok_op_def)
next
  case (Mget keys_arg)
  then show ?thesis using assms stats_inv_mget [of s keys_arg now]
    by (simp add: ok_op_def list_all_iff)
next
  case (Del keys_arg)
  then show ?thesis using assms stats_inv_del [of s keys_arg]
    by (simp add: ok_op_def list_all_iff)
next
  case (Ttl key ttl_arg)
  then show ?thesis using assms stats_inv_ttl [of s key now ttl_arg] by (simp add: ok_op_def)
next
  case (GetTtl key)
  then show ?thesis using assms stats_inv_getTtl [of s key now] by (simp add: ok_op_def)
next
  case FlushAll
  then show ?thesis using stats_inv_flushAll [of s] by simp
qed

lemma stats_inv_run:
  "stats_inv s \<Longrightarrow> \<forall>p\<in>set cs. ok_op (options s) (snd p) \<Longrightarrow> stats_inv (run cs s)"
proof (induction cs arbitrary: s)
  case Nil
  then show ?case by simp
next
  case (Cons p cs)
  obtain now c where p: "p = (now, c)" by (cases p)
  from Cons.prems p have ok: "ok_op (options s) c" by simp
  note st = stats_inv_step [OF Cons.prems(1) ok, of now]
  have "stats_inv (run cs (apply_op now c s))"
    using Cons.IH [of "apply_op now c s"] st Cons.prems(2) by simp
  then show ?case by (simp add: p)
qed

lemma stats_inv_from_new:
  "\<forall>p\<in>set cs. ok_op opts (snd p) \<Longrightarrow> stats_inv (run cs (new_NodeCache opts))"
  using stats_inv_run [OF stats_inv_new, of cs opts] by (simp add: new_NodeCache_def)

text \<open>
  The condition on \<open>TypeError\<close> is needed: with \<open>forceString\<close>, \<^verbatim>\<open>set("a", undefined)\<close>
  stores the entry, then throws before \<open>keys\<close> is counted up.
\<close>

lemma set_undefined_forceString:
  "snd undefined_forced = Inl TypeError
   \<and> data (fst undefined_forced) = [(''a'', \<lparr>t = 0, v = Undefined\<rparr>)]
   \<and> keys (the_stats (fst undefined_forced)) = Intg 0"
  by (simp add: undefined_forced_def eval_defs)


text \<open>
  The condition on inherited names is needed as well. On a new cache \<^verbatim>\<open>del("toString")\<close>
  finds the inherited function, reports one deletion and counts \<open>keys\<close> down to -1;
  and \<^verbatim>\<open>set("toString", "x")\<close> takes the key for existent, stores the entry and
  leaves \<open>keys\<close> at 0.
\<close>

lemma inherited_name_del_set:
  "snd (del (String ''toString'') (new_NodeCache default_options)) = Inr (Number (Intg 1))
   \<and> data (fst (del (String ''toString'') (new_NodeCache default_options))) = []
   \<and> keys (the_stats (fst (del (String ''toString'') (new_NodeCache default_options))))
       = Intg (- 1)
   \<and> data (fst (set' 0 (String ''toString'') (String ''x'') None
                   (new_NodeCache default_options)))
       = [(''toString'', \<lparr>t = 0, v = String ''x''\<rparr>)]
   \<and> keys (the_stats (fst (set' 0 (String ''toString'') (String ''x'') None
                              (new_NodeCache default_options)))) = Intg 0"
  by (simp add: eval_defs)

text \<open>
  For a string key the size of the key is its length, and \<open>set\<close> of a new string key
  that is no inherited name adds it to \<open>ksize\<close> and counts the key.
\<close>

lemma set_new_string_key:
  assumes "map_of (data s) k = None" and "k \<notin> set Object_prototype_names"
    and "\<not> (forceString (options s) \<and> value0 = Undefined)"
  shows "getKeyLength (String k) = Number (Intg (int (length k)))
    \<and> snd (set' now (String k) value0 ttl_arg s) = Inr (Bool True)
    \<and> ksize (the_stats (fst (set' now (String k) value0 ttl_arg s)))
        = num_add (ksize (the_stats s)) (Intg (int (length k)))
    \<and> keys (the_stats (fst (set' now (String k) value0 ttl_arg s)))
        = num_add (keys (the_stats s)) (Intg 1)"
proof -
  define val where "val = (if forceString (options s) \<and> \<not> isString value0
                 then (case JSON_stringify value0 of None \<Rightarrow> Undefined | Some str \<Rightarrow> String str)
                 else value0)"
  have "\<not> (forceString (options s) \<and> val = Undefined)"
    using assms(3) by (auto simp: val_def JSON_stringify_None split: option.splits)
  then obtain n where n: "getValLength (options s) val = Inr (Intg n)"
    using getValLength_ok by blast
  note l = lookup_plain_None [OF assms(2,1)]
  show ?thesis
    using assms(1) n l
    by (simp add: set'_def Let_def val_def [symmetric] the_stats_def upd_stats_def emit_def
        assign_plain [OF assms(2)])
qed

end
